theory Spec2Isabelle
  imports Complex_Main "HOL-Library.Log_Nat" "HOL-Library.Multiset" "HOL-Library.Sublist"
begin

section \<open>JavaScript numbers\<close>

text \<open>
  A JavaScript number is an IEEE 754 binary64 value. The finite values are embedded in
  the reals; \<open>NaN\<close> and the two infinities are separate constructors. The two zeros
  are identified (\<open>Fin 0\<close> stands for \<open>+0\<close>): the program compares numbers, takes
  maxima starting from the literal \<open>0\<close> and divides by that maximum, so a zero divisor
  is always \<open>+0\<close> and the sign of a zero is never observed.
\<close>

datatype jsnum = NaN | NInf | Fin real | PInf

text \<open>
  Rounding of an exact real result to binary64, round-to-nearest, ties-to-even:
  \<open>binade x\<close> is \<open>\<lfloor>log\<^sub>2 \<bar>x\<bar>\<rfloor>\<close>, the spacing of the doubles around \<open>x\<close> is
  \<open>2 powi (e - 52)\<close> (with the exponent held at \<open>-1022\<close> in the subnormal range), and a
  result of magnitude \<open>2 ^ 1024\<close> overflows to an infinity.
\<close>

definition binade :: "real \<Rightarrow> int" where
  "binade x =
     (let a = \<bar>x\<bar> in
      if 1 \<le> a then bitlen \<lfloor>a\<rfloor> - 1 else - bitlen (\<lceil>1 / a\<rceil> - 1))"

definition round_half_even :: "real \<Rightarrow> int" where
  "round_half_even m =
     (let f = \<lfloor>m\<rfloor>; d = m - of_int f in
      if d < 1 / 2 then f
      else if 1 / 2 < d then f + 1
      else if even f then f else f + 1)"

definition round_double :: "real \<Rightarrow> real" where
  "round_double x =
     (if x = 0 then 0
      else let e = max (binade x) (- 1022);
               q = 2 powi (e - 52)
           in of_int (round_half_even (x / q)) * q)"

definition fl :: "real \<Rightarrow> jsnum" where
  "fl x =
     (let y = round_double x in
      if 2 ^ 1024 \<le> \<bar>y\<bar> then (if 0 < x then PInf else NInf) else Fin y)"

text \<open>The operator \<open>/\<close>.\<close>

fun js_div :: "jsnum \<Rightarrow> jsnum \<Rightarrow> jsnum" where
  "js_div NaN _ = NaN"
| "js_div _ NaN = NaN"
| "js_div (Fin x) (Fin y) =
     (if y = 0 then (if x = 0 then NaN else if 0 < x then PInf else NInf)
      else fl (x / y))"
| "js_div (Fin x) _ = Fin 0"
| "js_div PInf (Fin y) = (if y < 0 then NInf else PInf)"
| "js_div NInf (Fin y) = (if y < 0 then PInf else NInf)"
| "js_div _ _ = NaN"

text \<open>The operator \<open>*\<close>.\<close>

fun js_mul :: "jsnum \<Rightarrow> jsnum \<Rightarrow> jsnum" where
  "js_mul NaN _ = NaN"
| "js_mul _ NaN = NaN"
| "js_mul (Fin x) (Fin y) = fl (x * y)"
| "js_mul (Fin x) PInf = (if x = 0 then NaN else if 0 < x then PInf else NInf)"
| "js_mul (Fin x) NInf = (if x = 0 then NaN else if 0 < x then NInf else PInf)"
| "js_mul PInf (Fin y) = (if y = 0 then NaN else if 0 < y then PInf else NInf)"
| "js_mul NInf (Fin y) = (if y = 0 then NaN else if 0 < y then NInf else PInf)"
| "js_mul PInf PInf = PInf"
| "js_mul NInf NInf = PInf"
| "js_mul _ _ = NInf"

text \<open>The comparison \<open><=\<close>: false as soon as one side is \<open>NaN\<close>.\<close>

fun js_le :: "jsnum \<Rightarrow> jsnum \<Rightarrow> bool" where
  "js_le NaN _ = False"
| "js_le _ NaN = False"
| "js_le NInf _ = True"
| "js_le _ PInf = True"
| "js_le (Fin x) (Fin y) = (x \<le> y)"
| "js_le _ _ = False"

text \<open>\<open>Math.max\<close> of two arguments.\<close>

definition js_max :: "jsnum \<Rightarrow> jsnum \<Rightarrow> jsnum" where
  "js_max a b = (if a = NaN \<or> b = NaN then NaN else if js_le a b then b else a)"

section \<open>Frames and their categories\<close>

record frame =
  id_frame :: string
  timestamp :: jsnum
  url :: string
  size_frame :: jsnum

record categorized =
  c_opening :: "frame list"
  c_setup :: "frame list"
  c_main :: "frame list"
  c_climax :: "frame list"
  c_closing :: "frame list"
  maxTimestamp :: jsnum

text \<open>The body of the \<open>forEach\<close> callback of \<open>categorizeFrames\<close>.\<close>

definition push_frame :: "jsnum \<Rightarrow> categorized \<Rightarrow> frame \<Rightarrow> categorized" where
  "push_frame maxT categories frame =
     (let perc = js_mul (js_div (timestamp frame) maxT) (Fin 100) in
      if js_le perc (Fin 10) then categories\<lparr>c_opening := c_opening categories @ [frame]\<rparr>
      else if js_le perc (Fin 20) then categories\<lparr>c_setup := c_setup categories @ [frame]\<rparr>
      else if js_le perc (Fin 60) then categories\<lparr>c_main := c_main categories @ [frame]\<rparr>
      else if js_le perc (Fin 90) then categories\<lparr>c_climax := c_climax categories @ [frame]\<rparr>
      else categories\<lparr>c_closing := c_closing categories @ [frame]\<rparr>)"

definition empty_categories :: "jsnum \<Rightarrow> categorized" where
  "empty_categories maxT =
     \<lparr>c_opening = [], c_setup = [], c_main = [], c_climax = [], c_closing = [],
      maxTimestamp = maxT\<rparr>"

definition categorizeFrames :: "frame list \<Rightarrow> categorized" where
  "categorizeFrames frames =
     (if length frames = 0 then empty_categories (Fin 0)
      else let maxT = foldl (\<lambda>mx f. js_max mx (timestamp f)) (Fin 0) frames
           in foldl (push_frame maxT) (empty_categories maxT) frames)"

definition frame0 :: frame where
  "frame0 = \<lparr>id_frame = ''frame-0'', timestamp = Fin 0, url = ''u'', size_frame = Fin 1\<rparr>"

text \<open>The five segment names, the bucket a frame is pushed to, and the bucket of a name.\<close>

datatype segment = Opening | Setup | Main | Climax | Closing

definition bucket_of :: "jsnum \<Rightarrow> frame \<Rightarrow> segment" where
  "bucket_of maxT frame =
     (let perc = js_mul (js_div (timestamp frame) maxT) (Fin 100) in
      if js_le perc (Fin 10) then Opening
      else if js_le perc (Fin 20) then Setup
      else if js_le perc (Fin 60) then Main
      else if js_le perc (Fin 90) then Climax
      else Closing)"

definition bucket :: "categorized \<Rightarrow> segment \<Rightarrow> frame list" where
  "bucket c s = (case s of Opening \<Rightarrow> c_opening c | Setup \<Rightarrow> c_setup c | Main \<Rightarrow> c_main c
                 | Climax \<Rightarrow> c_climax c | Closing \<Rightarrow> c_closing c)"

definition mk_frame :: "nat \<Rightarrow> real \<Rightarrow> frame" where
  "mk_frame i t = \<lparr>id_frame = ''frame'', timestamp = Fin t, url = ''u'', size_frame = Fin (real i)\<rparr>"

definition frames5 :: "frame list" where
  "frames5 = [mk_frame 0 0, mk_frame 1 1, mk_frame 2 5, mk_frame 3 9, mk_frame 4 10]"

section \<open>JavaScript values and the result validators\<close>

text \<open>
  The values that \<open>JSON.parse\<close> produces, and \<open>undefined\<close> for a missing property. An
  object is the list of its own properties in insertion order (a key occurs once).
\<close>

datatype jsval =
    JUndefined
  | JNull
  | JBool bool
  | JNum jsnum
  | JStr string
  | JArr "jsval list"
  | JObj "(string \<times> jsval) list"

datatype js_error = TypeError | Error string

fun typeof :: "jsval \<Rightarrow> string" where
  "typeof JUndefined = ''undefined''"
| "typeof JNull = ''object''"
| "typeof (JBool _) = ''boolean''"
| "typeof (JNum _) = ''number''"
| "typeof (JStr _) = ''string''"
| "typeof (JArr _) = ''object''"
| "typeof (JObj _) = ''object''"

fun isArray :: "jsval \<Rightarrow> bool" where
  "isArray (JArr _) = True"
| "isArray _ = False"

text \<open>Conversion to boolean, as \<open>&&\<close>, \<open>||\<close>, \<open>!\<close> and \<open>if\<close> apply it.\<close>

fun truthy :: "jsval \<Rightarrow> bool" where
  "truthy JUndefined = False"
| "truthy JNull = False"
| "truthy (JBool b) = b"
| "truthy (JNum n) = (n \<noteq> Fin 0 \<and> n \<noteq> NaN)"
| "truthy (JStr s) = (s \<noteq> [])"
| "truthy (JArr _) = True"
| "truthy (JObj _) = True"

text \<open>
  Property access \<open>obj.name\<close>, for the data properties the program reads (none of them is
  inherited from a prototype): a \<open>TypeError\<close> on \<open>null\<close> and \<open>undefined\<close>, the own
  property of an object, and \<open>undefined\<close> otherwise. \<open>get_opt\<close> is \<open>obj?.name\<close>.
\<close>

fun get_prop :: "jsval \<Rightarrow> string \<Rightarrow> js_error + jsval" where
  "get_prop JUndefined name = Inl TypeError"
| "get_prop JNull name = Inl TypeError"
| "get_prop (JObj kvs) name = Inr (case map_of kvs name of Some v \<Rightarrow> v | None \<Rightarrow> JUndefined)"
| "get_prop _ name = Inr JUndefined"

fun get_opt :: "jsval \<Rightarrow> string \<Rightarrow> js_error + jsval" where
  "get_opt JUndefined name = Inr JUndefined"
| "get_opt JNull name = Inr JUndefined"
| "get_opt obj name = get_prop obj name"

text \<open>\<open>Object.values(obj)\<close> and the method call \<open>arr.every(p)\<close>.\<close>

fun object_values :: "jsval \<Rightarrow> js_error + jsval list" where
  "object_values JUndefined = Inl TypeError"
| "object_values JNull = Inl TypeError"
| "object_values (JObj kvs) = Inr (map snd kvs)"
| "object_values (JArr xs) = Inr xs"
| "object_values (JStr s) = Inr (map (\<lambda>c. JStr [c]) s)"
| "object_values _ = Inr []"

fun every :: "jsval \<Rightarrow> (jsval \<Rightarrow> bool) \<Rightarrow> js_error + jsval" where
  "every (JArr xs) p = Inr (JBool (list_all p xs))"
| "every _ p = Inl TypeError"

text \<open>
  \<open>a && b\<close>: the value of \<open>a\<close> when it is falsy, and then \<open>b\<close> is not evaluated (an
  exception it would raise does not happen); otherwise the outcome of \<open>b\<close>.
\<close>

definition js_and :: "js_error + jsval \<Rightarrow> js_error + jsval \<Rightarrow> js_error + jsval" where
  "js_and a b = (case a of Inl e \<Rightarrow> Inl e | Inr v \<Rightarrow> if truthy v then b else Inr v)"

definition bind_js :: "js_error + 'a \<Rightarrow> ('a \<Rightarrow> js_error + 'b) \<Rightarrow> js_error + 'b" where
  "bind_js a f = (case a of Inl e \<Rightarrow> Inl e | Inr v \<Rightarrow> f v)"

definition isAssessmentIndicator :: "jsval \<Rightarrow> js_error + jsval" where
  "isAssessmentIndicator obj =
     (if typeof obj \<noteq> ''object'' \<or> isArray obj \<or> obj = JNull then Inr (JBool False)
      else bind_js (object_values obj)
             (\<lambda>vs. Inr (JBool (list_all (\<lambda>v. typeof v = ''boolean'') vs))))"

definition isResultItem :: "jsval \<Rightarrow> js_error + jsval" where
  "isResultItem obj =
     js_and (js_and (js_and
       (Inr obj)
       (bind_js (get_prop obj ''recomendations'') (\<lambda>r. Inr (JBool (isArray r)))))
       (bind_js (get_prop obj ''recomendations'') (\<lambda>r. every r (\<lambda>r. typeof r = ''string''))))
       (bind_js (get_prop obj ''assessmentIndicators'') isAssessmentIndicator)"

definition isOpenAIResponseResult :: "jsval \<Rightarrow> js_error + jsval" where
  "isOpenAIResponseResult obj =
     js_and (js_and (js_and (js_and (js_and (js_and (js_and (js_and
       (Inr obj)
       (bind_js (get_opt obj ''opening'') isResultItem))
       (bind_js (get_opt obj ''setup'') isResultItem))
       (bind_js (get_opt obj ''main'') isResultItem))
       (bind_js (get_opt obj ''climax'') isResultItem))
       (bind_js (get_opt obj ''closing'') isResultItem))
       (get_opt obj ''general''))
       (bind_js (get_opt obj ''general'') isResultItem))
       (bind_js (bind_js (get_opt obj ''general'') (\<lambda>g. get_opt g ''summary''))
          (\<lambda>s. Inr (JBool (typeof s = ''string''))))"

text \<open>
  The shape predicates in the specification's words. \<open>field x name\<close> is the field of
  \<open>x\<close>, \<open>undefined\<close> when \<open>x\<close> has no such field.
\<close>

definition field :: "jsval \<Rightarrow> string \<Rightarrow> jsval" where
  "field x name =
     (case x of JObj kvs \<Rightarrow> (case map_of kvs name of Some v \<Rightarrow> v | None \<Rightarrow> JUndefined)
      | _ \<Rightarrow> JUndefined)"

definition is_boolean :: "jsval \<Rightarrow> bool" where
  "is_boolean v = (case v of JBool _ \<Rightarrow> True | _ \<Rightarrow> False)"

definition is_string :: "jsval \<Rightarrow> bool" where
  "is_string v = (case v of JStr _ \<Rightarrow> True | _ \<Rightarrow> False)"

definition spec_isAssessmentIndicator :: "jsval \<Rightarrow> bool" where
  "spec_isAssessmentIndicator x =
     (case x of JObj kvs \<Rightarrow> list_all is_boolean (map snd kvs) | _ \<Rightarrow> False)"

definition spec_isResultItem :: "jsval \<Rightarrow> bool" where
  "spec_isResultItem x =
     ((case field x ''recomendations'' of JArr rs \<Rightarrow> list_all is_string rs | _ \<Rightarrow> False)
      \<and> spec_isAssessmentIndicator (field x ''assessmentIndicators''))"

definition spec_isAssessmentDocument :: "jsval \<Rightarrow> bool" where
  "spec_isAssessmentDocument x =
     (spec_isResultItem (field x ''opening'') \<and> spec_isResultItem (field x ''setup'') \<and>
      spec_isResultItem (field x ''main'') \<and> spec_isResultItem (field x ''climax'') \<and>
      spec_isResultItem (field x ''closing'') \<and>
      spec_isResultItem (field x ''general'') \<and> is_string (field (field x ''general'') ''summary''))"

definition empty_item :: jsval where
  "empty_item = JObj [(''recomendations'', JArr []), (''assessmentIndicators'', JObj [])]"

definition item_ok :: jsval where
  "item_ok = JObj [(''recomendations'', JArr [JStr ''x'']),
                   (''assessmentIndicators'', JObj [(''clarity'', JBool True)])]"

definition doc_ok :: jsval where
  "doc_ok = JObj [(''general'', JObj [(''recomendations'', JArr []),
                                      (''assessmentIndicators'', JObj []),
                                      (''summary'', JStr ''s'')]),
                  (''opening'', item_ok), (''setup'', item_ok), (''main'', item_ok),
                  (''climax'', item_ok), (''closing'', empty_item)]"

section \<open>Extraction settings\<close>

text \<open>
  \<open>Number(v)\<close>: the cases of \<open>undefined\<close>, \<open>null\<close>, booleans and numbers are fixed by
  the language; for a string, an array or an object the runtime parses the value's string
  form, and that parser is the parameter \<open>parse\<close>.
\<close>

fun Number :: "(jsval \<Rightarrow> jsnum) \<Rightarrow> jsval \<Rightarrow> jsnum" where
  "Number parse JUndefined = NaN"
| "Number parse JNull = Fin 0"
| "Number parse (JBool b) = (if b then Fin 1 else Fin 0)"
| "Number parse (JNum n) = n"
| "Number parse v = parse v"

text \<open>\<open>a || b\<close> on values.\<close>

definition js_or :: "jsval \<Rightarrow> jsval \<Rightarrow> jsval" where
  "js_or a b = (if truthy a then a else b)"

record settings =
  interval :: jsval
  format :: jsval
  quality :: jsval

text \<open>
  The object \<open>usedSettings\<close> of \<open>extractAndUploadFrames\<close>. The literal \<open>0.8\<close> is the
  double nearest to \<open>8 / 10\<close>.
\<close>

definition usedSettings :: "(jsval \<Rightarrow> jsnum) \<Rightarrow> settings \<Rightarrow> settings" where
  "usedSettings parse s =
     \<lparr>interval = js_or (JNum (Number parse (interval s))) (JNum (fl (8 / 10))),
      format = js_or (format s) (JStr ''jpeg''),
      quality = js_or (JNum (Number parse (quality s))) (JNum (fl (8 / 10)))\<rparr>"

text \<open>A parser that finds no number in any string, for concrete evaluation.\<close>

definition parse_nan :: "jsval \<Rightarrow> jsnum" where
  "parse_nan v = NaN"

section \<open>Splitting the transcript\<close>

text \<open>The operator \<open>+\<close> on numbers and \<open>Math.floor\<close>.\<close>

fun js_add :: "jsnum \<Rightarrow> jsnum \<Rightarrow> jsnum" where
  "js_add NaN _ = NaN"
| "js_add _ NaN = NaN"
| "js_add (Fin x) (Fin y) = fl (x + y)"
| "js_add PInf NInf = NaN"
| "js_add NInf PInf = NaN"
| "js_add PInf _ = PInf"
| "js_add NInf _ = NInf"
| "js_add _ PInf = PInf"
| "js_add _ NInf = NInf"

fun js_floor :: "jsnum \<Rightarrow> jsnum" where
  "js_floor (Fin x) = Fin (of_int \<lfloor>x\<rfloor>)"
| "js_floor v = v"

text \<open>
  \<open>Array.prototype.slice(start, stop)\<close>: each argument is truncated to an integer
  (\<open>NaN\<close> to 0), a negative one counts from the end, both are clamped to the array, and
  the elements from the first index up to the second are copied.
\<close>

definition to_integer :: "real \<Rightarrow> int" where
  "to_integer x = (if x < 0 then - \<lfloor>- x\<rfloor> else \<lfloor>x\<rfloor>)"

fun rel_index :: "nat \<Rightarrow> jsnum \<Rightarrow> nat" where
  "rel_index len NaN = 0"
| "rel_index len NInf = 0"
| "rel_index len PInf = len"
| "rel_index len (Fin x) =
     (let i = to_integer x in
      if i < 0 then nat (max (int len + i) 0) else min (nat i) len)"

definition js_slice :: "'a list \<Rightarrow> jsnum \<Rightarrow> jsnum \<Rightarrow> 'a list" where
  "js_slice xs start stop =
     (let k = rel_index (length xs) start; final = rel_index (length xs) stop
      in take (final - k) (drop k xs))"

text \<open>\<open>s.split(" ")\<close> and \<open>ws.join(" ")\<close>.\<close>

fun split_space :: "string \<Rightarrow> string list" where
  "split_space [] = [[]]"
| "split_space (c # cs) =
     (if c = CHR '' '' then [] # split_space cs
      else (case split_space cs of [] \<Rightarrow> [[c]] | w # ws \<Rightarrow> (c # w) # ws))"

fun join_space :: "string list \<Rightarrow> string" where
  "join_space [] = []"
| "join_space [w] = w"
| "join_space (w # ws) = w @ CHR '' '' # join_space ws"

text \<open>
  The object \<open>parts\<close> maps a segment name to its text; \<open>general\<close> is kept beside it.
\<close>

record transcript_parts =
  parts :: "segment \<rightharpoonup> string"
  general :: string

definition segments :: "segment list" where
  "segments = [Opening, Setup, Main, Climax, Closing]"

text \<open>One round of the \<open>for\<close> loop of \<open>splitTranscript\<close>, on the pair of \<open>cursor\<close> and \<open>parts\<close>.\<close>

definition split_step ::
  "categorized \<Rightarrow> nat \<Rightarrow> string list \<Rightarrow> jsnum \<times> (segment \<rightharpoonup> string) \<Rightarrow> segment
   \<Rightarrow> jsnum \<times> (segment \<rightharpoonup> string)" where
  "split_step categories tot words st key =
     (let cursor = fst st;
          cnt = length (bucket categories key);
          tk = js_floor (js_mul (js_div (Fin (real cnt)) (Fin (real tot)))
                                (Fin (real (length words))))
      in (js_add cursor tk,
          (snd st)(key \<mapsto> join_space (js_slice words cursor (js_add cursor tk)))))"

definition splitTranscript :: "string \<Rightarrow> categorized \<Rightarrow> transcript_parts" where
  "splitTranscript transcript categories =
     (let tot = length (c_opening categories) + length (c_setup categories) +
                length (c_main categories) + length (c_climax categories) +
                length (c_closing categories)
      in if tot = 0 then
           \<lparr>parts = [Opening \<mapsto> [], Setup \<mapsto> [], Main \<mapsto> [], Climax \<mapsto> [], Closing \<mapsto> []],
            general = transcript\<rparr>
         else
           let words = split_space transcript;
               st = foldl (split_step categories tot words) (Fin 0, Map.empty) segments
           in \<lparr>parts = snd st, general = transcript\<rparr>)"

text \<open>
  The algorithm in the specification's words, for a given tokenizer: the counts of the
  five buckets in the fixed order, their sum, and for each bucket the slice of
  \<open>floor((count / total) * wordCount)\<close> words at a running cursor, joined by single
  spaces. \<open>ws_words\<close> is tokenizing by whitespace: the maximal runs of characters
  that are not whitespace.
\<close>

definition is_space :: "char \<Rightarrow> bool" where
  "is_space c = (c \<in> set [CHR '' '', CHR 0x09, CHR 0x0A, CHR 0x0B, CHR 0x0C, CHR 0x0D])"

function ws_words :: "string \<Rightarrow> string list" where
  "ws_words [] = []"
| "ws_words (c # cs) =
     (if is_space c then ws_words cs
      else takeWhile (\<lambda>d. \<not> is_space d) (c # cs) # ws_words (dropWhile (\<lambda>d. \<not> is_space d) cs))"
  by pat_completeness auto
termination
  by (relation "measure length") (auto simp add: less_Suc_eq_le length_dropWhile_le)

definition spec_take :: "nat \<Rightarrow> nat \<Rightarrow> nat \<Rightarrow> nat" where
  "spec_take cnt tot n =
     (case js_mul (js_div (Fin (real cnt)) (Fin (real tot))) (Fin (real n)) of
        Fin x \<Rightarrow> nat \<lfloor>x\<rfloor> | _ \<Rightarrow> 0)"

fun spec_segments :: "nat \<Rightarrow> string list \<Rightarrow> nat \<Rightarrow> nat list \<Rightarrow> string list" where
  "spec_segments tot words cursor [] = []"
| "spec_segments tot words cursor (cnt # cnts) =
     join_space (take (spec_take cnt tot (length words)) (drop cursor words))
       # spec_segments tot words (cursor + spec_take cnt tot (length words)) cnts"

definition spec_splitTranscript ::
  "(string \<Rightarrow> string list) \<Rightarrow> string \<Rightarrow> categorized \<Rightarrow> transcript_parts" where
  "spec_splitTranscript tokenize transcript categories =
     (let cnts = map (\<lambda>s. length (bucket categories s)) segments;
          tot = sum_list cnts;
          words = tokenize transcript
      in if tot = 0 then \<lparr>parts = (\<lambda>s. Some []), general = transcript\<rparr>
         else \<lparr>parts = map_of (zip segments (spec_segments tot words 0 cnts)),
               general = transcript\<rparr>)"

definition word_count :: "string \<Rightarrow> nat" where
  "word_count s = length (ws_words s)"

definition part_text :: "transcript_parts \<Rightarrow> segment \<Rightarrow> string" where
  "part_text r s = (case parts r s of Some w \<Rightarrow> w | None \<Rightarrow> [])"

text \<open>Concrete categories: one frame in the opening bucket, and the counts 1, 1, 2, 0, 0.\<close>

definition one_opening :: categorized where
  "one_opening =
     \<lparr>c_opening = [frame0], c_setup = [], c_main = [], c_climax = [], c_closing = [],
      maxTimestamp = Fin 0\<rparr>"

definition counts_1120 :: categorized where
  "counts_1120 =
     \<lparr>c_opening = [frame0], c_setup = [frame0], c_main = [frame0, frame0], c_climax = [],
      c_closing = [], maxTimestamp = Fin 0\<rparr>"

section \<open>The route \<open>POST /api/main\<close>\<close>

text \<open>
  The handler runs against local storage (the list of the existing paths with their
  contents, in the order of creation, a directory having the empty content), the table
  \<open>data\<close> of the database (from identifier to stored result), and the log of the
  collaborator invocations made so far: the two extractions, the transcription and each
  completion request. What the outside world
  answers during one invocation is the record \<open>env\<close>: each field is the outcome of one
  external call, an error or a value. The prompt of a completion is determined by the
  segment name, the segment's text and its frames, or by the five results and the full
  transcript; the model passes these values to the collaborator in place of the text.
\<close>

record upload_result =
  secure_url :: string
  public_id :: string
  up_format :: string
  bytes :: jsnum

record audio_meta =
  duration :: jsval
  sampleRate :: jsval
  channels :: jsval
  channelLayout :: jsval

record audio_data =
  a_url :: string
  a_name :: string
  a_format :: string
  a_size :: jsnum
  a_meta :: audio_meta

record video_meta =
  has_video_stream :: bool
  v_duration :: jsval
  v_width :: jsval
  v_height :: jsval

record file_info =
  path :: string
  mimetype :: string
  size_file :: jsnum
  filename :: string

record frames_data =
  frames_of :: "frame list"
  videoFile :: "video_meta \<times> file_info"
  settings_used :: settings

record request =
  file_req :: "file_info option"
  body_req :: settings

datatype prompt =
    SegmentPrompt string "string option" "frame list"
  | SummaryPrompt jsval jsval jsval jsval jsval string

datatype call = ExtractAudio | ExtractFrames | Transcribe | Complete prompt

record payload =
  p_result :: jsval
  p_audio :: audio_data
  p_frames :: categorized

record world =
  files :: "(string \<times> string) list"
  db :: "string \<rightharpoonup> payload"
  calls :: "call list"

record env =
  read_fails :: "js_error option"
  find_fails :: "js_error option"
  audio_stamp :: string
  frames_stamp :: string
  ffmpeg_audio :: "js_error option"
  probe_audio :: "js_error + audio_meta"
  upload_audio :: "js_error + upload_result"
  probe_video :: "js_error + video_meta"
  ffmpeg_frames :: "js_error + string list"
  upload_frame :: "string \<Rightarrow> js_error + upload_result"
  fetch_audio :: "js_error option"
  pipe_audio :: "js_error option"
  transcribeAudio :: "js_error + string"
  gptJson :: "prompt \<Rightarrow> js_error + jsval"
  create_fails :: "js_error option"
  parse_number :: "jsval \<Rightarrow> jsnum"
  to_string :: "jsval \<Rightarrow> string"

datatype response_body = Message string | Failure string js_error | Data payload

datatype response = Response nat response_body

text \<open>A computation that may throw and changes the world.\<close>

type_synonym 'a io = "world \<Rightarrow> (js_error + 'a) \<times> world"

definition ret :: "'a \<Rightarrow> 'a io" where
  "ret x w = (Inr x, w)"

definition throw :: "js_error \<Rightarrow> 'a io" where
  "throw e w = (Inl e, w)"

definition seq :: "'a io \<Rightarrow> ('a \<Rightarrow> 'b io) \<Rightarrow> 'b io" where
  "seq m f w = (case m w of (Inl e, w') \<Rightarrow> (Inl e, w') | (Inr x, w') \<Rightarrow> f x w')"

definition lift :: "js_error + 'a \<Rightarrow> 'a io" where
  "lift r w = (r, w)"

definition fails :: "js_error option \<Rightarrow> unit io" where
  "fails r w = (case r of Some e \<Rightarrow> (Inl e, w) | None \<Rightarrow> (Inr (), w))"

definition effect :: "(world \<Rightarrow> world) \<Rightarrow> unit io" where
  "effect f w = (Inr (), f w)"

text \<open>The calls of \<open>fs\<close>, with the guard \<open>existsSync\<close> the program puts before them.\<close>

definition existsSync :: "string \<Rightarrow> world \<Rightarrow> bool" where
  "existsSync p w = (map_of (files w) p \<noteq> None)"

definition remove_path :: "string \<Rightarrow> (string \<times> string) list \<Rightarrow> (string \<times> string) list" where
  "remove_path p fs = filter (\<lambda>entry. fst entry \<noteq> p) fs"

definition write_file :: "string \<Rightarrow> world \<Rightarrow> world" where
  "write_file p w = w\<lparr>files := remove_path p (files w) @ [(p, [])]\<rparr>"

definition mkdir_if_missing :: "string \<Rightarrow> world \<Rightarrow> world" where
  "mkdir_if_missing p w = (if existsSync p w then w else w\<lparr>files := files w @ [(p, [])]\<rparr>)"

definition unlink_if_exists :: "string \<Rightarrow> world \<Rightarrow> world" where
  "unlink_if_exists p w =
     (if existsSync p w then w\<lparr>files := remove_path p (files w)\<rparr> else w)"

definition join_path :: "string \<Rightarrow> string \<Rightarrow> string" where
  "join_path dir name = dir @ CHR ''/'' # name"

text \<open>
  \<open>readdirSync\<close> lists the names under a directory; \<open>rmdirSync\<close> throws on a directory
  that still has an entry.
\<close>

definition readdirSync :: "string \<Rightarrow> world \<Rightarrow> string list" where
  "readdirSync dir w =
     map (\<lambda>entry. drop (length dir + 1) (fst entry))
       (filter (\<lambda>entry. prefix (dir @ [CHR ''/'']) (fst entry)) (files w))"

definition rmdir_if_exists :: "string \<Rightarrow> unit io" where
  "rmdir_if_exists dir w =
     (if existsSync dir w then
        (if readdirSync dir w \<noteq> [] then (Inl (Error ''ENOTEMPTY''), w)
         else (Inr (), w\<lparr>files := remove_path dir (files w)\<rparr>))
      else (Inr (), w))"

definition log_call :: "call \<Rightarrow> world \<Rightarrow> world" where
  "log_call c w = w\<lparr>calls := calls w @ [c]\<rparr>"

text \<open>
  \<open>getFileHash\<close>: the digest of the file's bytes, or the error of the stream. The hash
  function is the parameter \<open>digest\<close>.
\<close>

definition getFileHash :: "(string \<Rightarrow> string) \<Rightarrow> env \<Rightarrow> string \<Rightarrow> string io" where
  "getFileHash digest e filePath w =
     (case map_of (files w) filePath of
        None \<Rightarrow> (Inl (Error ''ENOENT''), w)
      | Some content \<Rightarrow>
          (case read_fails e of Some err \<Rightarrow> (Inl err, w) | None \<Rightarrow> (Inr (digest content), w)))"

definition extractAndUploadAudio :: "env \<Rightarrow> string \<Rightarrow> audio_data io" where
  "extractAndUploadAudio e localVideoPath =
     (let tempAudioPath = join_path ''temp'' (audio_stamp e @ ''-audio.wav'') in
      seq (effect (log_call ExtractAudio \<circ> mkdir_if_missing ''temp'')) (\<lambda>_.
      seq (fails (ffmpeg_audio e)) (\<lambda>_.
      seq (effect (write_file tempAudioPath)) (\<lambda>_.
      seq (lift (probe_audio e)) (\<lambda>metadata.
      seq (lift (upload_audio e)) (\<lambda>uploadAudioResult.
      seq (effect (unlink_if_exists tempAudioPath)) (\<lambda>_.
      ret \<lparr>a_url = secure_url uploadAudioResult, a_name = public_id uploadAudioResult,
           a_format = up_format uploadAudioResult, a_size = bytes uploadAudioResult,
           a_meta = metadata\<rparr>)))))))"

text \<open>
  The string form of a value, as \<open>endsWith\<close> takes it: the string itself, and the
  runtime's conversion for any other value.
\<close>

definition string_of :: "env \<Rightarrow> jsval \<Rightarrow> string" where
  "string_of e v = (case v of JStr s \<Rightarrow> s | _ \<Rightarrow> to_string e v)"

text \<open>The frame that the upload of the file with index \<open>idx\<close> resolves to.\<close>

fun show_nat :: "nat \<Rightarrow> string" where
  "show_nat n =
     (if n < 10 then [char_of (48 + n)] else show_nat (n div 10) @ [char_of (48 + n mod 10)])"

definition uploaded_frame :: "env \<Rightarrow> settings \<Rightarrow> nat \<Rightarrow> upload_result \<Rightarrow> frame" where
  "uploaded_frame e used idx result =
     \<lparr>id_frame = ''frame-'' @ show_nat idx,
      timestamp = js_mul (Fin (real idx)) (Number (parse_number e) (interval used)),
      url = secure_url result,
      size_frame = bytes result\<rparr>"

fun collect :: "(js_error + 'a) list \<Rightarrow> js_error + 'a list" where
  "collect [] = Inr []"
| "collect (Inl err # rs) = Inl err"
| "collect (Inr x # rs) = (case collect rs of Inl err \<Rightarrow> Inl err | Inr xs \<Rightarrow> Inr (x # xs))"

definition extractAndUploadFrames ::
  "env \<Rightarrow> string \<Rightarrow> file_info \<Rightarrow> settings \<Rightarrow> frames_data io" where
  "extractAndUploadFrames e localVideoPath fileInfo settings =
     (let tempFramesDir = join_path ''temp'' (''frames-'' @ frames_stamp e) in
      seq (effect (mkdir_if_missing tempFramesDir \<circ> mkdir_if_missing ''temp''
                   \<circ> log_call ExtractFrames)) (\<lambda>_.
      seq (lift (probe_video e)) (\<lambda>meta.
      if \<not> has_video_stream meta then throw (Error ''No video stream found'')
      else
        let used = usedSettings (parse_number e) settings in
        seq (lift (ffmpeg_frames e)) (\<lambda>written.
        seq (effect (\<lambda>w. foldl (\<lambda>w f. write_file (join_path tempFramesDir f) w) w written)) (\<lambda>_.
        seq (\<lambda>w. ret (filter (suffix (string_of e (format used))) (readdirSync tempFramesDir w)) w)
          (\<lambda>fs.
        seq (lift (collect (map (\<lambda>(file, idx).
                 map_sum id (uploaded_frame e used idx)
                   (upload_frame e (join_path tempFramesDir file)))
               (zip fs [0..<length fs])))) (\<lambda>extractedFrames.
        seq (effect (\<lambda>w. foldl (\<lambda>w f. unlink_if_exists (join_path tempFramesDir f) w) w fs)) (\<lambda>_.
        seq (rmdir_if_exists tempFramesDir) (\<lambda>_.
        ret \<lparr>frames_of = extractedFrames, videoFile = (meta, fileInfo),
             settings_used = used\<rparr>)))))))))"

text \<open>
  \<open>Promise.all\<close> of the two extractions: both are started, so both run; the model runs
  them one after the other, each to its end, and then throws the error of the first one
  that failed.
\<close>

definition both :: "'a io \<Rightarrow> 'b io \<Rightarrow> ('a \<times> 'b) io" where
  "both m n w =
     (case m w of (r1, w1) \<Rightarrow>
        (case n w1 of (r2, w2) \<Rightarrow>
           (case r1 of Inl err \<Rightarrow> (Inl err, w2)
            | Inr x \<Rightarrow> (case r2 of Inl err \<Rightarrow> (Inl err, w2) | Inr y \<Rightarrow> (Inr (x, y), w2)))))"

text \<open>
  Step 2 of the handler. The object that \<open>extractAndUploadAudio\<close> returns has no field
  \<open>transcript\<close>, so the audio is always downloaded and transcribed.
\<close>

definition transcribe_step :: "env \<Rightarrow> string io" where
  "transcribe_step e =
     (let audioTempPath = join_path ''temp'' ''audio-temp.wav'' in
      seq (effect (mkdir_if_missing ''temp'')) (\<lambda>_.
      seq (fails (fetch_audio e)) (\<lambda>_.
      seq (effect (write_file audioTempPath)) (\<lambda>_.
      seq (fails (pipe_audio e)) (\<lambda>_.
      seq (effect (log_call Transcribe)) (\<lambda>_.
      seq (lift (transcribeAudio e)) (\<lambda>transcript.
      seq (effect (unlink_if_exists audioTempPath)) (\<lambda>_.
      ret transcript))))))))"

definition segment_name :: "segment \<Rightarrow> string" where
  "segment_name s =
     (case s of Opening \<Rightarrow> ''opening'' | Setup \<Rightarrow> ''setup'' | Main \<Rightarrow> ''main''
      | Climax \<Rightarrow> ''climax'' | Closing \<Rightarrow> ''closing'')"

text \<open>Step 4: the five completion requests are all sent before any answer is awaited.\<close>

definition evaluate_segments :: "env \<Rightarrow> transcript_parts \<Rightarrow> categorized \<Rightarrow> jsval list io" where
  "evaluate_segments e audioSegments categories w =
     (let prompts = map (\<lambda>s. SegmentPrompt (segment_name s) (parts audioSegments s)
                                  (bucket categories s)) segments
      in (collect (map (gptJson e) prompts), w\<lparr>calls := calls w @ map Complete prompts\<rparr>))"

definition summarize :: "env \<Rightarrow> jsval list \<Rightarrow> transcript_parts \<Rightarrow> jsval io" where
  "summarize e rs audioSegments =
     (let p = SummaryPrompt (rs ! 0) (rs ! 1) (rs ! 2) (rs ! 3) (rs ! 4) (general audioSegments)
      in seq (effect (log_call (Complete p))) (\<lambda>_. lift (gptJson e p)))"

definition validate :: "jsval \<Rightarrow> unit io" where
  "validate result =
     seq (lift (isOpenAIResponseResult result)) (\<lambda>ok.
       if \<not> truthy ok
       then throw (Error ''Invalid result structure from OpenAI (does not match expected interface)'')
       else ret ())"

text \<open>Steps 1 to 7 of the handler after a cache miss: everything up to the validated result.\<close>

definition analyse :: "env \<Rightarrow> file_info \<Rightarrow> settings \<Rightarrow> payload io" where
  "analyse e f b =
     seq (both (extractAndUploadAudio e (path f)) (extractAndUploadFrames e (path f) f b))
       (\<lambda>(audioData, framesData).
     seq (effect (unlink_if_exists (path f))) (\<lambda>_.
     seq (transcribe_step e) (\<lambda>transcript.
     let categories = categorizeFrames (frames_of framesData);
         audioSegments = splitTranscript transcript categories in
     seq (evaluate_segments e audioSegments categories) (\<lambda>rs.
     seq (summarize e rs audioSegments) (\<lambda>general_result.
     let result = JObj [(''general'', general_result), (''opening'', rs ! 0),
                        (''setup'', rs ! 1), (''main'', rs ! 2), (''climax'', rs ! 3),
                        (''closing'', rs ! 4)] in
     seq (validate result) (\<lambda>_.
     ret \<lparr>p_result = result, p_audio = audioData, p_frames = categories\<rparr>))))))"

definition findUnique :: "env \<Rightarrow> string \<Rightarrow> payload option io" where
  "findUnique e identifier w =
     (case find_fails e of Some err \<Rightarrow> (Inl err, w) | None \<Rightarrow> (Inr (db w identifier), w))"

definition create :: "env \<Rightarrow> string \<Rightarrow> payload \<Rightarrow> payload io" where
  "create e identifier data w =
     (case create_fails e of
        Some err \<Rightarrow> (Inl err, w)
      | None \<Rightarrow> (Inr data, w\<lparr>db := (db w)(identifier \<mapsto> data)\<rparr>))"

text \<open>The body of the \<open>try\<close> block, and the handler with its \<open>catch\<close>.\<close>

definition try_block :: "(string \<Rightarrow> string) \<Rightarrow> env \<Rightarrow> file_info \<Rightarrow> settings \<Rightarrow> response io" where
  "try_block digest e f b =
     seq (getFileHash digest e (path f)) (\<lambda>identifier.
     seq (findUnique e identifier) (\<lambda>existing.
       case existing of
         Some stored \<Rightarrow>
           seq (effect (unlink_if_exists (path f))) (\<lambda>_. ret (Response 200 (Data stored)))
       | None \<Rightarrow>
           seq (analyse e f b) (\<lambda>data.
           seq (create e identifier data) (\<lambda>created.
           ret (Response 200 (Data created))))))"

definition post_api_main ::
  "(string \<Rightarrow> string) \<Rightarrow> env \<Rightarrow> request \<Rightarrow> world \<Rightarrow> response \<times> world" where
  "post_api_main digest e req w =
     (case file_req req of
        None \<Rightarrow> (Response 400 (Message ''No video file uploaded''), w)
      | Some f \<Rightarrow>
          (case try_block digest e f (body_req req) w of
             (Inr res, w') \<Rightarrow> (res, w')
           | (Inl err, w') \<Rightarrow>
               (Response 500 (Failure ''Sorry there's a problem'' err),
                unlink_if_exists (path f) w')))"

text \<open>Concrete invocations: a video without a video stream, and a run that succeeds.\<close>

definition digest0 :: "string \<Rightarrow> string" where
  "digest0 content = ''sha:'' @ content"

definition upload0 :: upload_result where
  "upload0 = \<lparr>secure_url = ''https://cdn/x'', public_id = ''x'', up_format = ''wav'', bytes = Fin 1\<rparr>"

definition env0 :: env where
  "env0 =
     \<lparr>read_fails = None, find_fails = None, audio_stamp = ''1'', frames_stamp = ''2'',
      ffmpeg_audio = None,
      probe_audio = Inr \<lparr>duration = JNum (Fin 1), sampleRate = JNull, channels = JNull,
                          channelLayout = JUndefined\<rparr>,
      upload_audio = Inr upload0,
      probe_video = Inr \<lparr>has_video_stream = False, v_duration = JNum (Fin 1),
                          v_width = JUndefined, v_height = JUndefined\<rparr>,
      ffmpeg_frames = Inr [],
      upload_frame = (\<lambda>p. Inr upload0),
      fetch_audio = None, pipe_audio = None,
      transcribeAudio = Inr ''hello'',
      gptJson = (\<lambda>p. Inr JNull),
      create_fails = None,
      parse_number = parse_nan,
      to_string = (\<lambda>v. '''')\<rparr>"

definition file0 :: file_info where
  "file0 = \<lparr>path = ''uploads/v'', mimetype = ''video/mp4'', size_file = Fin 5, filename = ''v''\<rparr>"

definition request0 :: request where
  "request0 = \<lparr>file_req = Some file0,
                body_req = \<lparr>interval = JUndefined, format = JUndefined, quality = JUndefined\<rparr>\<rparr>"

definition world0 :: world where
  "world0 = \<lparr>files = [(''uploads/v'', ''bytes'')], db = Map.empty, calls = []\<rparr>"

definition general_ok :: jsval where
  "general_ok = JObj [(''recomendations'', JArr []), (''assessmentIndicators'', JObj []),
                      (''summary'', JStr ''s'')]"

definition env1 :: env where
  "env1 = env0\<lparr>probe_video := Inr \<lparr>has_video_stream = True, v_duration = JNum (Fin 1),
                                       v_width = JUndefined, v_height = JUndefined\<rparr>,
               gptJson := (\<lambda>p. case p of SegmentPrompt n t fs \<Rightarrow> Inr item_ok
                                        | SummaryPrompt a b c d e t \<Rightarrow> Inr general_ok)\<rparr>"

definition file2 :: file_info where
  "file2 = \<lparr>path = ''uploads/v2'', mimetype = ''video/mp4'', size_file = Fin 5, filename = ''v2''\<rparr>"

definition audio1 :: audio_data where
  "audio1 = \<lparr>a_url = ''https://cdn/x'', a_name = ''x'', a_format = ''wav'', a_size = Fin 1,
              a_meta = \<lparr>duration = JNum (Fin 1), sampleRate = JNull, channels = JNull,
                         channelLayout = JUndefined\<rparr>\<rparr>"

definition segment_calls :: "call list" where
  "segment_calls = map (\<lambda>s. Complete (SegmentPrompt (segment_name s) (Some []) [])) segments"

definition payload1 :: payload where
  "payload1 =
     \<lparr>p_result = JObj [(''general'', general_ok), (''opening'', item_ok), (''setup'', item_ok),
                        (''main'', item_ok), (''climax'', item_ok), (''closing'', item_ok)],
      p_audio = audio1,
      p_frames = empty_categories (Fin 0)\<rparr>"

definition world1 :: world where
  "world1 =
     \<lparr>files = [(''temp'', [])], db = [''sha:bytes'' \<mapsto> payload1],
      calls = [ExtractAudio, ExtractFrames, Transcribe] @ segment_calls @
              [Complete (SummaryPrompt item_ok item_ok item_ok item_ok item_ok ''hello'')]\<rparr>"

definition world2 :: world where
  "world2 = world1\<lparr>files := files world1 @ [(''uploads/v2'', ''bytes'')]\<rparr>"

text \<open>
  Two properties of a computation, for the proofs: it leaves the table \<open>data\<close> as it
  is, and it appends to the log only calls of the given stages, none of them twice.
\<close>

fun stage :: "call \<Rightarrow> nat" where
  "stage ExtractAudio = 0"
| "stage ExtractFrames = 1"
| "stage Transcribe = 2"
| "stage (Complete (SegmentPrompt name text fs)) = 3"
| "stage (Complete (SummaryPrompt a b c d e t)) = 4"

definition keeps_db :: "'a io \<Rightarrow> bool" where
  "keeps_db m = (\<forall>w. db (snd (m w)) = db w)"

definition appends :: "nat set \<Rightarrow> 'a io \<Rightarrow> bool" where
  "appends I m =
     (\<forall>w. \<exists>new. calls (snd (m w)) = calls w @ new \<and> distinct new \<and> stage ` set new \<subseteq> I)"

section \<open>Theorems\<close>

text \<open>
  C1. The claim says that a video whose frames all have timestamp 0 has every frame in the
  opening bucket. The code divides \<open>0 / 0\<close>, which is \<open>NaN\<close>; every comparison with
  \<open>NaN\<close> is false, so the single frame of a one-frame video falls through to the
  closing bucket and the opening bucket stays empty.
\<close>

theorem categorizeFrames_zero_max_closing:
  "categorizeFrames [frame0] =
     \<lparr>c_opening = [], c_setup = [], c_main = [], c_climax = [], c_closing = [frame0],
      maxTimestamp = Fin 0\<rparr>"
  by (simp add: categorizeFrames_def empty_categories_def push_frame_def js_max_def frame0_def Let_def)

lemma bucket_push_frame:
  "bucket (push_frame m c f) s = bucket c s @ (if bucket_of m f = s then [f] else [])"
  by (cases s) (simp_all add: bucket_def push_frame_def bucket_of_def Let_def)

lemma maxTimestamp_push_frame: "maxTimestamp (push_frame m c f) = maxTimestamp c"
  by (simp add: push_frame_def Let_def)

lemma bucket_foldl_push_frame:
  "bucket (foldl (push_frame m) c fs) s = bucket c s @ filter (\<lambda>f. bucket_of m f = s) fs"
  by (induction fs arbitrary: c) (simp_all add: bucket_push_frame)

lemma maxTimestamp_foldl_push_frame:
  "maxTimestamp (foldl (push_frame m) c fs) = maxTimestamp c"
  by (induction fs arbitrary: c) (simp_all add: maxTimestamp_push_frame)

lemma bucket_empty_categories: "bucket (empty_categories m) s = []"
  by (cases s) (simp_all add: bucket_def empty_categories_def)

lemma maxTimestamp_empty_categories: "maxTimestamp (empty_categories m) = m"
  by (simp add: empty_categories_def)

lemma js_le_refl: "a \<noteq> NaN \<Longrightarrow> js_le a a"
  by (cases a) simp_all

lemma js_le_trans: "js_le a b \<Longrightarrow> js_le b c \<Longrightarrow> js_le a c"
  by (cases a; cases b; cases c) simp_all

lemma js_le_antisym: "js_le a b \<Longrightarrow> js_le b a \<Longrightarrow> a = b"
  by (cases a; cases b) simp_all

lemma js_le_total: "a \<noteq> NaN \<Longrightarrow> b \<noteq> NaN \<Longrightarrow> js_le a b \<or> js_le b a"
  by (cases a; cases b) auto

lemma js_le_not_NaN: "js_le a b \<Longrightarrow> a \<noteq> NaN \<and> b \<noteq> NaN"
  by (cases a; cases b) simp_all

lemma foldl_js_max:
  assumes "a \<noteq> NaN" "\<forall>f\<in>set fs. timestamp f \<noteq> NaN"
  shows "js_le a (foldl (\<lambda>mx f. js_max mx (timestamp f)) a fs)
       \<and> (\<forall>f\<in>set fs. js_le (timestamp f) (foldl (\<lambda>mx f. js_max mx (timestamp f)) a fs))
       \<and> (foldl (\<lambda>mx f. js_max mx (timestamp f)) a fs = a
           \<or> foldl (\<lambda>mx f. js_max mx (timestamp f)) a fs \<in> timestamp ` set fs)"
  using assms
proof (induction fs arbitrary: a)
  case Nil
  then show ?case by (simp add: js_le_refl)
next
  case (Cons f fs)
  let ?b = "js_max a (timestamp f)"
  have tf: "timestamp f \<noteq> NaN" using Cons.prems by simp
  have b: "?b \<noteq> NaN" using Cons.prems tf by (simp add: js_max_def)
  have ab: "js_le a ?b" and fb: "js_le (timestamp f) ?b"
    using Cons.prems(1) tf js_le_total[of a "timestamp f"] by (auto simp: js_max_def js_le_refl)
  have bb: "?b = a \<or> ?b = timestamp f" by (simp add: js_max_def)
  have IH: "js_le ?b (foldl (\<lambda>mx f. js_max mx (timestamp f)) ?b fs)
       \<and> (\<forall>f\<in>set fs. js_le (timestamp f) (foldl (\<lambda>mx f. js_max mx (timestamp f)) ?b fs))
       \<and> (foldl (\<lambda>mx f. js_max mx (timestamp f)) ?b fs = ?b
           \<or> foldl (\<lambda>mx f. js_max mx (timestamp f)) ?b fs \<in> timestamp ` set fs)"
    using Cons.IH[OF b] Cons.prems(2) by simp
  show ?case
    using IH ab fb bb by (auto intro: js_le_trans)
qed

lemma mset_filter_segments:
  "mset (filter (\<lambda>f. g f = Opening) fs @ filter (\<lambda>f. g f = Setup) fs @ filter (\<lambda>f. g f = Main) fs
         @ filter (\<lambda>f. g f = Climax) fs @ filter (\<lambda>f. g f = Closing) fs) = mset fs"
proof (induction fs)
  case Nil
  then show ?case by simp
next
  case (Cons x xs)
  then show ?case by (cases "g x") simp_all
qed

lemma maxTimestamp_categorizeFrames:
  assumes "frames \<noteq> []" "\<forall>f\<in>set frames. js_le (Fin 0) (timestamp f)"
  shows "maxTimestamp (categorizeFrames frames) \<in> timestamp ` set frames"
    and "\<forall>f\<in>set frames. js_le (timestamp f) (maxTimestamp (categorizeFrames frames))"
proof -
  let ?m = "foldl (\<lambda>mx f. js_max mx (timestamp f)) (Fin 0) frames"
  have m: "maxTimestamp (categorizeFrames frames) = ?m"
    using assms(1)
    by (simp add: categorizeFrames_def Let_def maxTimestamp_foldl_push_frame
        maxTimestamp_empty_categories)
  have nn: "\<forall>f\<in>set frames. timestamp f \<noteq> NaN"
    using assms(2) js_le_not_NaN by blast
  have F: "js_le (Fin 0) ?m" "\<forall>f\<in>set frames. js_le (timestamp f) ?m"
    "?m = Fin 0 \<or> ?m \<in> timestamp ` set frames"
    using foldl_js_max[of "Fin 0" frames] nn by simp_all
  show "\<forall>f\<in>set frames. js_le (timestamp f) (maxTimestamp (categorizeFrames frames))"
    using F(2) m by simp
  show "maxTimestamp (categorizeFrames frames) \<in> timestamp ` set frames"
  proof (cases "?m = Fin 0")
    case True
    obtain f where f: "f \<in> set frames" using assms(1) by (cases frames) auto
    have "js_le (timestamp f) (Fin 0)" using F(2) f True by simp
    moreover have "js_le (Fin 0) (timestamp f)" using assms(2) f by simp
    ultimately have "timestamp f = Fin 0" by (rule js_le_antisym)
    then show ?thesis using f m True by force
  next
    case False
    then show ?thesis using F(3) m by simp
  qed
qed

lemma bucket_categorizeFrames:
  "frames \<noteq> [] \<Longrightarrow> bucket (categorizeFrames frames) s =
     filter (\<lambda>f. bucket_of (maxTimestamp (categorizeFrames frames)) f = s) frames"
  by (simp add: categorizeFrames_def Let_def bucket_foldl_push_frame bucket_empty_categories
      maxTimestamp_foldl_push_frame maxTimestamp_empty_categories)

text \<open>
  C2. For the empty input all five buckets are empty and \<open>maxTimestamp\<close> is 0. For a
  non-empty input whose timestamps are all at least 0, every bucket is the input filtered
  by the segment its frames are assigned to (so each frame is in exactly one bucket, in
  the input's order, none duplicated or dropped), the buckets together hold exactly the
  input's frames, and \<open>maxTimestamp\<close> is the greatest timestamp of the input.
\<close>

theorem categorizeFrames_partition:
  "(frames = [] \<longrightarrow>
      c_opening (categorizeFrames frames) = [] \<and> c_setup (categorizeFrames frames) = [] \<and>
      c_main (categorizeFrames frames) = [] \<and> c_climax (categorizeFrames frames) = [] \<and>
      c_closing (categorizeFrames frames) = [] \<and> maxTimestamp (categorizeFrames frames) = Fin 0) \<and>
   (frames \<noteq> [] \<and> (\<forall>f\<in>set frames. js_le (Fin 0) (timestamp f)) \<longrightarrow>
      (\<forall>s. bucket (categorizeFrames frames) s =
          filter (\<lambda>f. bucket_of (maxTimestamp (categorizeFrames frames)) f = s) frames) \<and>
      (\<forall>s. subseq (bucket (categorizeFrames frames) s) frames) \<and>
      mset (c_opening (categorizeFrames frames) @ c_setup (categorizeFrames frames) @
            c_main (categorizeFrames frames) @ c_climax (categorizeFrames frames) @
            c_closing (categorizeFrames frames)) = mset frames \<and>
      maxTimestamp (categorizeFrames frames) \<in> timestamp ` set frames \<and>
      (\<forall>f\<in>set frames. js_le (timestamp f) (maxTimestamp (categorizeFrames frames))))"
proof (intro conjI impI)
  assume "frames \<noteq> [] \<and> (\<forall>f\<in>set frames. js_le (Fin 0) (timestamp f))"
  then have ne: "frames \<noteq> []" and nn: "\<forall>f\<in>set frames. js_le (Fin 0) (timestamp f)"
    by simp_all
  let ?r = "categorizeFrames frames"
  show B: "\<forall>s. bucket ?r s = filter (\<lambda>f. bucket_of (maxTimestamp ?r) f = s) frames"
    using bucket_categorizeFrames[OF ne] by simp
  show "\<forall>s. subseq (bucket ?r s) frames"
    using B by simp
  have "c_opening ?r = bucket ?r Opening" "c_setup ?r = bucket ?r Setup"
    "c_main ?r = bucket ?r Main" "c_climax ?r = bucket ?r Climax" "c_closing ?r = bucket ?r Closing"
    by (simp_all add: bucket_def)
  then show "mset (c_opening ?r @ c_setup ?r @ c_main ?r @ c_climax ?r @ c_closing ?r) = mset frames"
    using B mset_filter_segments[of "bucket_of (maxTimestamp ?r)" frames] by simp
  show "maxTimestamp ?r \<in> timestamp ` set frames"
    using maxTimestamp_categorizeFrames(1)[OF ne nn] .
  show "\<forall>f\<in>set frames. js_le (timestamp f) (maxTimestamp ?r)"
    using maxTimestamp_categorizeFrames(2)[OF ne nn] .
qed (simp_all add: categorizeFrames_def empty_categories_def)

theorem categorizeFrames_partition_witness:
  "frames5 \<noteq> [] \<and> list_all (\<lambda>f. js_le (Fin 0) (timestamp f)) frames5 \<and>
   mset (c_opening (categorizeFrames frames5) @ c_setup (categorizeFrames frames5) @
         c_main (categorizeFrames frames5) @ c_climax (categorizeFrames frames5) @
         c_closing (categorizeFrames frames5)) = mset frames5 \<and>
   maxTimestamp (categorizeFrames frames5) \<in> timestamp ` set frames5"
  using categorizeFrames_partition[of frames5]
  by (simp add: frames5_def mk_frame_def)

lemma typeof_boolean: "(typeof v = ''boolean'') = is_boolean v"
  by (cases v) (simp_all add: is_boolean_def)

lemma typeof_string: "(typeof v = ''string'') = is_string v"
  by (cases v) (simp_all add: is_string_def)

lemma isAssessmentIndicator_spec:
  "isAssessmentIndicator x = Inr (JBool (spec_isAssessmentIndicator x))"
  by (cases x)
    (simp_all add: isAssessmentIndicator_def spec_isAssessmentIndicator_def bind_js_def
      typeof_boolean list_all_iff)

lemma get_prop_field: "x \<noteq> JUndefined \<Longrightarrow> x \<noteq> JNull \<Longrightarrow> get_prop x name = Inr (field x name)"
  by (cases x) (simp_all add: field_def)

lemma get_opt_field: "get_opt x name = Inr (field x name)"
  by (cases x) (simp_all add: field_def)

lemma isResultItem_spec:
  "\<exists>v. isResultItem x = Inr v \<and> truthy v = spec_isResultItem x
       \<and> (v = JBool True) = spec_isResultItem x"
proof (cases "truthy x")
  case False
  then have "isResultItem x = Inr x" by (simp add: isResultItem_def js_and_def)
  moreover have "\<not> spec_isResultItem x" using False
    by (cases x) (simp_all add: spec_isResultItem_def field_def)
  moreover have "x \<noteq> JBool True" using False by auto
  ultimately show ?thesis using False by simp
next
  case True
  then have nn: "x \<noteq> JUndefined" "x \<noteq> JNull" by auto
  show ?thesis
  proof (cases "field x ''recomendations''")
    case (JArr rs)
    then show ?thesis using True
      by (simp add: isResultItem_def js_and_def bind_js_def get_prop_field[OF nn]
          isAssessmentIndicator_spec spec_isResultItem_def typeof_string)
  qed (simp_all add: isResultItem_def js_and_def bind_js_def get_prop_field[OF nn]
          isAssessmentIndicator_spec spec_isResultItem_def True)
qed

lemma spec_isResultItem_truthy: "spec_isResultItem g \<Longrightarrow> truthy g"
  by (cases g) (simp_all add: spec_isResultItem_def field_def)

lemma js_and_Inr:
  "js_and (Inr v) b = (if truthy v then b else Inr v)"
  by (simp add: js_and_def)

lemma isOpenAIResponseResult_spec:
  "\<exists>v. isOpenAIResponseResult x = Inr v \<and> truthy v = spec_isAssessmentDocument x
       \<and> (v = JBool True) = spec_isAssessmentDocument x"
proof -
  obtain v1 where v1: "isResultItem (field x ''opening'') = Inr v1"
    "truthy v1 = spec_isResultItem (field x ''opening'')"
    "(v1 = JBool True) = spec_isResultItem (field x ''opening'')"
    using isResultItem_spec by blast
  obtain v2 where v2: "isResultItem (field x ''setup'') = Inr v2"
    "truthy v2 = spec_isResultItem (field x ''setup'')"
    "(v2 = JBool True) = spec_isResultItem (field x ''setup'')"
    using isResultItem_spec by blast
  obtain v3 where v3: "isResultItem (field x ''main'') = Inr v3"
    "truthy v3 = spec_isResultItem (field x ''main'')"
    "(v3 = JBool True) = spec_isResultItem (field x ''main'')"
    using isResultItem_spec by blast
  obtain v4 where v4: "isResultItem (field x ''climax'') = Inr v4"
    "truthy v4 = spec_isResultItem (field x ''climax'')"
    "(v4 = JBool True) = spec_isResultItem (field x ''climax'')"
    using isResultItem_spec by blast
  obtain v5 where v5: "isResultItem (field x ''closing'') = Inr v5"
    "truthy v5 = spec_isResultItem (field x ''closing'')"
    "(v5 = JBool True) = spec_isResultItem (field x ''closing'')"
    using isResultItem_spec by blast
  obtain v6 where v6: "isResultItem (field x ''general'') = Inr v6"
    "truthy v6 = spec_isResultItem (field x ''general'')"
    "(v6 = JBool True) = spec_isResultItem (field x ''general'')"
    using isResultItem_spec by blast
  have und: "\<not> spec_isResultItem JUndefined"
    by (simp add: spec_isResultItem_def field_def)
  show ?thesis
  proof (cases "truthy x")
    case False
    then have "isOpenAIResponseResult x = Inr x"
      by (simp add: isOpenAIResponseResult_def js_and_Inr)
    moreover have "field x ''opening'' = JUndefined" using False
      by (cases x) (simp_all add: field_def)
    then have "\<not> spec_isAssessmentDocument x"
      using und by (simp add: spec_isAssessmentDocument_def)
    moreover have "x \<noteq> JBool True" using False by auto
    ultimately show ?thesis using False by simp
  next
    case True
    have g: "spec_isResultItem (field x ''general'') \<Longrightarrow> truthy (field x ''general'')"
      by (rule spec_isResultItem_truthy)
    have ne: "\<And>v. \<not> truthy v \<Longrightarrow> v \<noteq> JBool True" by auto
    show ?thesis
      using True v1 v2 v3 v4 v5 v6 g ne
      by (auto simp add: isOpenAIResponseResult_def js_and_Inr bind_js_def get_opt_field
          spec_isAssessmentDocument_def typeof_string)
  qed
qed

lemma isResultItem_empty_item: "isResultItem empty_item = Inr (JBool True)"
  by (simp add: empty_item_def isResultItem_def isAssessmentIndicator_def js_and_def bind_js_def)

text \<open>
  C5. Each validator returns without an exception, and what it returns is \<open>true\<close>
  exactly when the specification's shape predicate holds (and is falsy otherwise):
  \<open>isAssessmentIndicator\<close> for a non-array, non-null object whose values are all
  boolean, \<open>isResultItem\<close> for an array of strings in \<open>recomendations\<close> and an
  assessment indicator in \<open>assessmentIndicators\<close>, \<open>isOpenAIResponseResult\<close> for
  a document whose five segments and \<open>general\<close> are result items and whose
  \<open>general\<close> has a string \<open>summary\<close>. The item with an empty array and an empty
  object passes \<open>isResultItem\<close>.
\<close>

theorem validators_match_spec:
  "isAssessmentIndicator x = Inr (JBool (spec_isAssessmentIndicator x)) \<and>
   (\<exists>v. isResultItem x = Inr v \<and> truthy v = spec_isResultItem x
        \<and> (v = JBool True) = spec_isResultItem x) \<and>
   (\<exists>v. isOpenAIResponseResult x = Inr v \<and> truthy v = spec_isAssessmentDocument x
        \<and> (v = JBool True) = spec_isAssessmentDocument x) \<and>
   isResultItem empty_item = Inr (JBool True)"
  using isAssessmentIndicator_spec isResultItem_spec isOpenAIResponseResult_spec
    isResultItem_empty_item by blast

theorem validators_match_spec_witness:
  "spec_isAssessmentDocument doc_ok \<and> isOpenAIResponseResult doc_ok = Inr (JBool True)"
proof -
  have s: "spec_isAssessmentDocument doc_ok"
    by (simp add: spec_isAssessmentDocument_def spec_isResultItem_def
        spec_isAssessmentIndicator_def field_def doc_ok_def item_ok_def empty_item_def
        is_boolean_def is_string_def)
  show ?thesis using s validators_match_spec[of doc_ok] by auto
qed

text \<open>
  C6. On every value (\<open>undefined\<close>, \<open>null\<close>, booleans, numbers, strings, arrays and
  objects, nested to any depth) the three validators return a value: no branch of the
  model in which a property access, \<open>Object.values\<close> or \<open>every\<close> raises a
  \<open>TypeError\<close> is reached. The validators are functions of the value alone.
\<close>

theorem validators_total:
  "(\<exists>v. isAssessmentIndicator x = Inr v) \<and> (\<exists>v. isResultItem x = Inr v) \<and>
   (\<exists>v. isOpenAIResponseResult x = Inr v)"
  using isAssessmentIndicator_spec isResultItem_spec isOpenAIResponseResult_spec by blast

theorem validators_total_witness:
  "\<exists>v. isOpenAIResponseResult (JArr [JNull, JNum NaN]) = Inr v"
  using validators_total[of "JArr [JNull, JNum NaN]"] by blast

lemma bitlen_1: "bitlen 1 = 1"
  by (simp add: bitlen_alt_def)

lemma binade_four_fifths: "binade (4 / 5) = - 1"
  by (simp add: binade_def bitlen_1)

lemma round_double_four_fifths:
  "round_double (4 / 5) = 3602879701896397 / 4503599627370496"
  by (simp add: round_double_def binade_four_fifths round_half_even_def Let_def power_int_minus)

lemma fl_four_fifths: "fl (4 / 5) = Fin (3602879701896397 / 4503599627370496)"
  by (simp add: fl_def round_double_four_fifths)

lemma truthy_default: "truthy (JNum (fl (8 / 10)))"
  by (simp add: fl_four_fifths)

text \<open>
  C10. A numeric setting (\<open>interval\<close>, \<open>quality\<close>) whose coercion by \<open>Number\<close> is falsy
  (0 or \<open>NaN\<close>: a missing field, an empty or non-numeric string, a zero) is replaced by
  0.8, and a falsy \<open>format\<close> by \<open>jpeg\<close>; the interval that is used is a number other
  than 0 and \<open>NaN\<close>, whatever the request holds and however strings are parsed.
\<close>

theorem usedSettings_defaults:
  "(\<not> truthy (JNum (Number parse (interval s))) \<longrightarrow>
       interval (usedSettings parse s) = JNum (fl (8 / 10))) \<and>
   (\<not> truthy (format s) \<longrightarrow> format (usedSettings parse s) = JStr ''jpeg'') \<and>
   (\<not> truthy (JNum (Number parse (quality s))) \<longrightarrow>
       quality (usedSettings parse s) = JNum (fl (8 / 10))) \<and>
   (\<exists>n. interval (usedSettings parse s) = JNum n \<and> n \<noteq> Fin 0 \<and> n \<noteq> NaN)"
  using truthy_default by (auto simp add: usedSettings_def js_or_def)

theorem usedSettings_defaults_witness:
  "\<not> truthy (JNum (Number parse_nan (JNum (Fin 0)))) \<and>
   \<not> truthy (JStr '''') \<and>
   \<not> truthy (JNum (Number parse_nan (JStr ''abc''))) \<and>
   usedSettings parse_nan \<lparr>interval = JNum (Fin 0), format = JStr '''', quality = JStr ''abc''\<rparr>
     = \<lparr>interval = JNum (fl (8 / 10)), format = JStr ''jpeg'', quality = JNum (fl (8 / 10))\<rparr>"
  using usedSettings_defaults[of parse_nan
      "\<lparr>interval = JNum (Fin 0), format = JStr '''', quality = JStr ''abc''\<rparr>"]
  by (simp add: parse_nan_def)

text \<open>Facts about rounding: it keeps the sign, it does not cross a power of two, and it is exact
  on the natural numbers below \<open>2 ^ 53\<close>.\<close>

lemma round_half_even_of_int: "round_half_even (of_int M) = M"
  by (simp add: round_half_even_def)

lemma round_half_even_le:
  assumes "m \<le> of_int N"
  shows "round_half_even m \<le> N"
proof -
  have f: "\<lfloor>m\<rfloor> \<le> N" using assms by (simp add: floor_le_iff)
  have "\<lfloor>m\<rfloor> + 1 \<le> N" if "m \<noteq> of_int \<lfloor>m\<rfloor>"
  proof -
    have "of_int \<lfloor>m\<rfloor> < m" using that of_int_floor_le[of m] by linarith
    then have "of_int \<lfloor>m\<rfloor> < (of_int N :: real)" using assms by linarith
    then show ?thesis by simp
  qed
  then show ?thesis using f
    by (auto simp add: round_half_even_def Let_def)
qed

lemma round_half_even_nonneg: "0 \<le> m \<Longrightarrow> 0 \<le> round_half_even m"
  by (auto simp add: round_half_even_def Let_def)

lemma binade_le:
  assumes "0 < x" "x \<le> 2 ^ k"
  shows "binade x \<le> int k"
proof (cases "1 \<le> x")
  case True
  have "of_int \<lfloor>x\<rfloor> \<le> x" by simp
  moreover have "(2::real) ^ k < 2 ^ (k + 1)" by simp
  ultimately have "(of_int \<lfloor>x\<rfloor> :: real) < 2 ^ (k + 1)" using assms(2) by linarith
  then have "\<lfloor>x\<rfloor> < 2 ^ (k + 1)" by (metis of_int_less_iff of_int_numeral of_int_power)
  then have "bitlen \<lfloor>x\<rfloor> \<le> int k + 1"
    by (simp add: bitlen_le_iff_power nat_add_distrib)
  then show ?thesis using True assms(1) by (simp add: binade_def)
next
  case False
  then show ?thesis using assms(1) bitlen_nonneg[of "\<lceil>1 / x\<rceil> - 1"]
    by (simp add: binade_def)
qed

lemma round_double_nonneg: "0 \<le> x \<Longrightarrow> 0 \<le> round_double x"
  by (simp add: round_double_def Let_def round_half_even_nonneg)

lemma round_double_le_pow2:
  assumes "0 \<le> x" "x \<le> 2 ^ k"
  shows "round_double x \<le> 2 ^ k"
proof (cases "x = 0")
  case True
  then show ?thesis by (simp add: round_double_def)
next
  case False
  then have pos: "0 < x" using assms(1) by simp
  define e where "e = max (binade x) (- 1022)"
  define q :: real where "q = 2 powi (e - 52)"
  have e: "e \<le> int k" using binade_le[OF pos assms(2)] by (simp add: e_def)
  have q: "0 < q" by (simp add: q_def)
  define z where "z = int k - e + 52"
  define N :: int where "N = 2 ^ nat z"
  have z: "0 \<le> z" "z + (e - 52) = int k" using e by (simp_all add: z_def)
  have Nq: "of_int N * q = 2 ^ k"
  proof -
    have "of_int N = (2::real) powi z"
      using z(1) by (simp add: N_def power_int_def)
    moreover have "(2::real) powi (z + (e - 52)) = 2 powi z * 2 powi (e - 52)"
      by (rule power_int_add) simp
    ultimately have "of_int N * q = (2::real) powi (int k)"
      by (simp only: q_def z(2))
    then show ?thesis by simp
  qed
  have "x / q \<le> of_int N"
    using assms(2) q Nq by (simp add: field_simps)
  then have "round_half_even (x / q) \<le> N" by (rule round_half_even_le)
  then have "of_int (round_half_even (x / q)) * q \<le> of_int N * q"
    using q by (intro mult_right_mono) simp_all
  then have "of_int (round_half_even (x / q)) * q \<le> 2 ^ k"
    unfolding Nq .
  moreover have "round_double x = of_int (round_half_even (x / q)) * q"
    using False by (simp add: round_double_def Let_def e_def q_def)
  ultimately show ?thesis by (simp only:)
qed

lemma round_double_nat:
  assumes "j < 2 ^ 53"
  shows "round_double (real j) = real j"
proof (cases "j = 0")
  case True
  then show ?thesis by (simp add: round_double_def)
next
  case False
  then have j1: "1 \<le> real j" by simp
  have b: "binade (real j) = bitlen (int j) - 1"
    using j1 by (simp add: binade_def)
  have b0: "1 \<le> bitlen (int j)"
    using False by (simp add: bitlen_ge_iff_power)
  have b53: "bitlen (int j) \<le> 53"
    using assms less_power_nat_iff_bitlen[of j 53] by simp
  define e where "e = bitlen (int j) - 1"
  have e: "0 \<le> e" "e \<le> 52" using b0 b53 by (simp_all add: e_def)
  define M :: int where "M = int j * 2 ^ nat (52 - e)"
  have q: "(2::real) powi (e - 52) = 1 / 2 ^ nat (52 - e)"
    using e by (simp add: power_int_def field_simps)
  have m: "real j / 2 powi (e - 52) = of_int M"
    by (simp add: q M_def)
  have "of_int (round_half_even (real j / 2 powi (e - 52))) * 2 powi (e - 52) = real j"
    by (simp only: m round_half_even_of_int) (simp add: q M_def)
  moreover have "max (binade (real j)) (- 1022) = e"
    using b e by (simp add: e_def)
  ultimately show ?thesis using False
    by (simp add: round_double_def Let_def)
qed

lemma fl_nat: "j < 2 ^ 53 \<Longrightarrow> fl (real j) = Fin (real j)"
proof -
  assume j: "j < 2 ^ 53"
  have "real j < 2 ^ 53" using j by (metis of_nat_less_iff of_nat_numeral of_nat_power)
  also have "\<dots> < (2::real) ^ 1024" by simp
  finally show ?thesis using j by (simp add: fl_def round_double_nat)
qed

lemma fl_bounded:
  assumes "0 \<le> x" "x \<le> 2 ^ k" "k < 1024"
  shows "\<exists>y. fl x = Fin y \<and> 0 \<le> y \<and> y \<le> 2 ^ k"
proof -
  have y: "0 \<le> round_double x" "round_double x \<le> 2 ^ k"
    using assms round_double_nonneg round_double_le_pow2 by simp_all
  have "(2::real) ^ k < 2 ^ 1024" using assms(3) by (intro power_strict_increasing) simp_all
  then have "\<not> 2 ^ 1024 \<le> \<bar>round_double x\<bar>" using y by linarith
  then show ?thesis using y by (simp add: fl_def)
qed

lemma take_value:
  assumes "0 < tot" "cnt \<le> tot" "n < 2 ^ 32"
  shows "js_floor (js_mul (js_div (Fin (real cnt)) (Fin (real tot))) (Fin (real n)))
           = Fin (real (spec_take cnt tot n)) \<and> spec_take cnt tot n \<le> 2 ^ 32"
proof -
  have "0 \<le> real cnt / real tot" "real cnt / real tot \<le> 2 ^ 0"
    using assms(1,2) by simp_all
  then obtain d where d: "fl (real cnt / real tot) = Fin d" "0 \<le> d" "d \<le> 1"
    using fl_bounded[of "real cnt / real tot" 0] by auto
  have n: "real n \<le> 2 ^ 32"
    using assms(3) by (metis less_imp_le of_nat_le_iff of_nat_numeral of_nat_power)
  have "d * real n \<le> 1 * real n" using d(3) by (intro mult_right_mono) simp_all
  then have "0 \<le> d * real n" "d * real n \<le> 2 ^ 32" using d(2) n by simp_all
  then obtain p where p: "fl (d * real n) = Fin p" "0 \<le> p" "p \<le> 2 ^ 32"
    using fl_bounded[of "d * real n" 32] by auto
  have v: "js_mul (js_div (Fin (real cnt)) (Fin (real tot))) (Fin (real n)) = Fin p"
    using assms(1) d(1) p(1) by simp
  have t: "spec_take cnt tot n = nat \<lfloor>p\<rfloor>"
    by (simp only: spec_take_def v jsnum.case)
  have f0: "0 \<le> \<lfloor>p\<rfloor>" using p(2) by simp
  have "\<lfloor>p\<rfloor> \<le> 2 ^ 32" using p(3) by (simp add: floor_le_iff)
  then have "nat \<lfloor>p\<rfloor> \<le> 2 ^ 32" using f0 by (simp add: nat_le_iff)
  moreover have "js_floor (Fin p) = Fin (real (nat \<lfloor>p\<rfloor>))"
    using f0 by simp
  ultimately show ?thesis by (simp only: v t)
qed

lemma rel_index_nat: "rel_index len (Fin (real c)) = min c len"
  by (simp add: to_integer_def)

lemma js_slice_nat:
  "js_slice xs (Fin (real c)) (Fin (real (c + t))) = take t (drop c xs)"
proof -
  have "take (min (c + t) (length xs) - min c (length xs)) (drop (min c (length xs)) xs)
        = take t (drop c xs)"
  proof (cases "c \<le> length xs")
    case True
    then have "min (c + t) (length xs) - min c (length xs) = min t (length xs - c)"
      by linarith
    moreover have "take (min t (length (drop c xs))) (drop c xs) = take t (drop c xs)"
      by (cases "t \<le> length (drop c xs)") (simp_all add: min_def)
    ultimately show ?thesis using True by (simp add: min_absorb1)
  next
    case False
    then show ?thesis by simp
  qed
  then show ?thesis by (simp only: js_slice_def rel_index_nat Let_def)
qed

lemma split_step_nat:
  assumes "0 < tot" "length (bucket categories key) \<le> tot" "length words < 2 ^ 32"
    "c + 2 ^ 32 < 2 ^ 53"
  shows "split_step categories tot words (Fin (real c), m) key =
           (Fin (real (c + spec_take (length (bucket categories key)) tot (length words))),
            m(key \<mapsto> join_space (take (spec_take (length (bucket categories key)) tot
                                             (length words)) (drop c words))))"
proof -
  let ?t = "spec_take (length (bucket categories key)) tot (length words)"
  have tv: "js_floor (js_mul (js_div (Fin (real (length (bucket categories key))))
                (Fin (real tot))) (Fin (real (length words)))) = Fin (real ?t)"
    and tb: "?t \<le> 2 ^ 32"
    using take_value[OF assms(1,2,3)] by simp_all
  have "c + ?t < 2 ^ 53" using tb assms(4) by linarith
  then have "fl (real (c + ?t)) = Fin (real (c + ?t))" by (rule fl_nat)
  then have add: "js_add (Fin (real c)) (Fin (real ?t)) = Fin (real (c + ?t))"
    by simp
  show ?thesis
    by (simp only: split_step_def Let_def fst_conv snd_conv tv add js_slice_nat)
qed

lemma foldl_split_step:
  assumes "0 < tot" "\<forall>k\<in>set ks. length (bucket categories k) \<le> tot"
    "length words < 2 ^ 32" "c + length ks * 2 ^ 32 < 2 ^ 53" "distinct ks"
  shows "snd (foldl (split_step categories tot words) (Fin (real c), m) ks) =
           m ++ map_of (zip ks (spec_segments tot words c
                                  (map (\<lambda>s. length (bucket categories s)) ks)))"
  using assms(2,4,5)
proof (induction ks arbitrary: c m)
  case Nil
  then show ?case by simp
next
  case (Cons k ks)
  let ?t = "spec_take (length (bucket categories k)) tot (length words)"
  let ?v = "join_space (take ?t (drop c words))"
  have tb: "?t \<le> 2 ^ 32"
    using take_value[OF assms(1) _ assms(3), of "length (bucket categories k)"] Cons.prems(1)
    by simp
  have c: "c + 2 ^ 32 < 2 ^ 53" using Cons.prems(2) by simp
  have step: "split_step categories tot words (Fin (real c), m) k
              = (Fin (real (c + ?t)), m(k \<mapsto> ?v))"
    using split_step_nat[OF assms(1) _ assms(3) c, of categories k m] Cons.prems(1) by simp
  have c': "(c + ?t) + length ks * 2 ^ 32 < 2 ^ 53" using Cons.prems(2) tb by simp
  have IH: "snd (foldl (split_step categories tot words) (Fin (real (c + ?t)), m(k \<mapsto> ?v)) ks)
        = m(k \<mapsto> ?v) ++ map_of (zip ks (spec_segments tot words (c + ?t)
                                  (map (\<lambda>s. length (bucket categories s)) ks)))"
    using Cons.IH[OF _ c'] Cons.prems(1,3) by simp
  have nk: "k \<notin> dom (map_of (zip ks (spec_segments tot words (c + ?t)
                                  (map (\<lambda>s. length (bucket categories s)) ks))))"
    using Cons.prems(3) by (auto dest: map_of_SomeD set_zip_leftD)
  have L: "foldl (split_step categories tot words) (Fin (real c), m) (k # ks)
           = foldl (split_step categories tot words) (Fin (real (c + ?t)), m(k \<mapsto> ?v)) ks"
    by (simp only: foldl_Cons step)
  have R: "map_of (zip (k # ks) (spec_segments tot words c
                                  (map (\<lambda>s. length (bucket categories s)) (k # ks))))
           = (map_of (zip ks (spec_segments tot words (c + ?t)
                                  (map (\<lambda>s. length (bucket categories s)) ks))))(k \<mapsto> ?v)"
    by (simp only: list.map spec_segments.simps zip_Cons_Cons map_of.simps fst_conv snd_conv)
  show ?case
    by (simp only: L R IH map_add_upd_left[OF nk] map_add_upd)
qed

lemma fl_numeral: "numeral w < (2::nat) ^ 53 \<Longrightarrow> fl (numeral w) = Fin (numeral w)"
  using fl_nat[of "numeral w"] by simp

lemma fl_0: "fl 0 = Fin 0"
  using fl_nat[of 0] by simp

lemma fl_1: "fl 1 = Fin 1"
  using fl_nat[of 1] by simp

text \<open>
  The number of words taken is computed in double arithmetic: \<open>(1 / 49) * 49\<close> is
  the double just below 1, so one frame of 49 takes none of 49 words.
\<close>

lemma bitlen_48: "bitlen 48 = 6"
  by code_simp

lemma binade_49th: "binade (1 / 49) = - 6"
  by (simp add: binade_def bitlen_48)

lemma round_double_49th: "round_double (1 / 49) = 5882252574524729 / 288230376151711744"
  by (simp add: round_double_def binade_49th round_half_even_def Let_def power_int_minus)

lemma binade_almost_one: "binade (288230376151711721 / 288230376151711744) = - 1"
  by (simp add: binade_def bitlen_1)

lemma round_double_almost_one:
  "round_double (288230376151711721 / 288230376151711744) = 9007199254740991 / 9007199254740992"
  by (simp add: round_double_def binade_almost_one round_half_even_def Let_def power_int_minus)

lemma take_one_of_49: "spec_take 1 49 49 = 0"
  by (simp add: spec_take_def fl_def round_double_49th round_double_almost_one)

lemma bucket_le_total:
  "length (bucket categories s) \<le>
     length (c_opening categories) + length (c_setup categories) +
     length (c_main categories) + length (c_climax categories) + length (c_closing categories)"
  by (cases s) (simp_all add: bucket_def)

lemma sum_list_buckets:
  "sum_list (map (\<lambda>s. length (bucket categories s)) segments) =
     length (c_opening categories) + length (c_setup categories) +
     length (c_main categories) + length (c_climax categories) + length (c_closing categories)"
  by (simp add: segments_def bucket_def)

lemma all_segments_empty:
  "[Opening \<mapsto> [], Setup \<mapsto> [], Main \<mapsto> [], Climax \<mapsto> [], Closing \<mapsto> []]
     = (\<lambda>s::segment. Some ([]::string))"
proof
  fix s :: segment
  show "[Opening \<mapsto> [], Setup \<mapsto> [], Main \<mapsto> [], Climax \<mapsto> [], Closing \<mapsto> []] s
          = Some ([]::string)"
    by (cases s) simp_all
qed

lemma splitTranscript_spec:
  assumes "length (split_space transcript) < 2 ^ 32"
  shows "splitTranscript transcript categories
           = spec_splitTranscript split_space transcript categories"
proof -
  define tot where "tot = length (c_opening categories) + length (c_setup categories) +
     length (c_main categories) + length (c_climax categories) + length (c_closing categories)"
  define cnts where "cnts = map (\<lambda>s. length (bucket categories s)) segments"
  have S: "sum_list cnts = tot"
    unfolding cnts_def tot_def by (rule sum_list_buckets)
  have L: "splitTranscript transcript categories =
     (if tot = 0 then
        \<lparr>parts = [Opening \<mapsto> [], Setup \<mapsto> [], Main \<mapsto> [], Climax \<mapsto> [], Closing \<mapsto> []],
         general = transcript\<rparr>
      else \<lparr>parts = snd (foldl (split_step categories tot (split_space transcript))
                            (Fin 0, Map.empty) segments),
            general = transcript\<rparr>)"
    unfolding splitTranscript_def Let_def tot_def by (rule refl)
  have R: "spec_splitTranscript split_space transcript categories =
     (if tot = 0 then \<lparr>parts = (\<lambda>s. Some []), general = transcript\<rparr>
      else \<lparr>parts = map_of (zip segments (spec_segments tot (split_space transcript) 0 cnts)),
            general = transcript\<rparr>)"
    unfolding spec_splitTranscript_def Let_def cnts_def[symmetric] S by (rule refl)
  show ?thesis
  proof (cases "tot = 0")
    case True
    then show ?thesis by (simp add: L R all_segments_empty)
  next
    case False
    then have pos: "0 < tot" by simp
    have le: "\<forall>k\<in>set segments. length (bucket categories k) \<le> tot"
      unfolding tot_def using bucket_le_total by blast
    have c: "0 + length segments * 2 ^ 32 < (2::nat) ^ 53"
      by (simp add: segments_def)
    have d: "distinct segments" by (simp add: segments_def)
    have "snd (foldl (split_step categories tot (split_space transcript))
                 (Fin (real (0::nat)), Map.empty) segments)
          = Map.empty ++ map_of (zip segments (spec_segments tot (split_space transcript) 0 cnts))"
      unfolding cnts_def by (rule foldl_split_step[OF pos le assms c d])
    then have "snd (foldl (split_step categories tot (split_space transcript))
                 (Fin 0, Map.empty) segments)
          = map_of (zip segments (spec_segments tot (split_space transcript) 0 cnts))"
      by simp
    then show ?thesis using False by (simp add: L R)
  qed
qed

lemma split_space_ne: "split_space s \<noteq> []"
  by (induction s) (auto split: list.splits)

lemma join_space_Cons_Cons: "join_space ((c # w) # ws) = c # join_space (w # ws)"
  by (cases ws) simp_all

lemma join_space_Nil_Cons: "ws \<noteq> [] \<Longrightarrow> join_space ([] # ws) = CHR '' '' # join_space ws"
  by (cases ws) simp_all

lemma join_split_space: "join_space (split_space s) = s"
proof (induction s)
  case Nil
  then show ?case by simp
next
  case (Cons c cs)
  show ?case
  proof (cases "c = CHR '' ''")
    case True
    then show ?thesis using Cons split_space_ne[of cs] by (simp add: join_space_Nil_Cons)
  next
    case False
    obtain w ws where w: "split_space cs = w # ws"
      using split_space_ne[of cs] by (cases "split_space cs") auto
    then show ?thesis using False Cons by (simp add: join_space_Cons_Cons)
  qed
qed

lemma takeWhile_append_stop:
  "\<not> P s \<Longrightarrow> takeWhile P (xs @ s # b) = takeWhile P xs"
  by (induction xs) simp_all

lemma dropWhile_append_stop:
  "\<not> P s \<Longrightarrow> dropWhile P (xs @ s # b) = dropWhile P xs @ s # b"
  by (induction xs) simp_all

lemma is_space_space: "is_space CHR '' ''"
  by (simp add: is_space_def)

lemma ws_words_append_space: "ws_words (a @ CHR '' '' # b) = ws_words a @ ws_words b"
proof (induction a rule: ws_words.induct)
  case 1
  then show ?case by (simp add: is_space_space)
next
  case (2 c cs)
  show ?case
  proof (cases "is_space c")
    case True
    then show ?thesis using 2(1) by simp
  next
    case False
    have t: "takeWhile (\<lambda>d. \<not> is_space d) (cs @ CHR '' '' # b)
               = takeWhile (\<lambda>d. \<not> is_space d) cs"
      by (rule takeWhile_append_stop) (simp add: is_space_space)
    have d: "dropWhile (\<lambda>d. \<not> is_space d) (cs @ CHR '' '' # b)
               = dropWhile (\<lambda>d. \<not> is_space d) cs @ CHR '' '' # b"
      by (rule dropWhile_append_stop) (simp add: is_space_space)
    show ?thesis using False 2(2) by (simp add: t d)
  qed
qed

lemma ws_words_join_space: "ws_words (join_space ws) = concat (map ws_words ws)"
  by (induction ws rule: join_space.induct) (simp_all add: ws_words_append_space)

lemma word_count_join_space: "word_count (join_space ws) = sum_list (map word_count ws)"
  by (simp add: word_count_def[abs_def] ws_words_join_space length_concat comp_def)

lemma sum_list_take_drop:
  "sum_list (map f (take t xs)) + sum_list (map f (drop t xs)) = (sum_list (map f xs) :: nat)"
proof -
  have "sum_list (map f (take t xs @ drop t xs)) = sum_list (map f xs)" by simp
  then show ?thesis by (simp only: map_append sum_list_append)
qed

lemma spec_segments_word_count:
  "sum_list (map word_count (spec_segments tot words c cnts))
     \<le> sum_list (map word_count (drop c words))"
proof (induction cnts arbitrary: c)
  case Nil
  then show ?case by simp
next
  case (Cons cnt cnts)
  let ?t = "spec_take cnt tot (length words)"
  have "sum_list (map word_count (spec_segments tot words (c + ?t) cnts))
          \<le> sum_list (map word_count (drop ?t (drop c words)))"
    using Cons.IH[of "c + ?t"] by (simp add: add.commute)
  moreover have "sum_list (map word_count (take ?t (drop c words)))
                 + sum_list (map word_count (drop ?t (drop c words)))
                 = sum_list (map word_count (drop c words))"
    by (rule sum_list_take_drop)
  ultimately show ?case
    by (simp add: word_count_join_space)
qed

text \<open>
  C3. The claim has the transcript tokenized by whitespace. The code splits at every single
  space, so two spaces in a row give an empty word (and a tab or a newline does not
  separate words): with one frame, in the opening bucket, the transcript \<open>a  b\<close> has
  three words for the code, and the opening segment is \<open>a  b\<close>, while tokenizing by
  whitespace gives two words and the segment \<open>a b\<close>.
\<close>

theorem splitTranscript_whitespace_counterexample:
  "splitTranscript ''a  b'' one_opening \<noteq> spec_splitTranscript ws_words ''a  b'' one_opening"
proof -
  have "splitTranscript ''a  b'' one_opening = spec_splitTranscript split_space ''a  b'' one_opening"
    by (rule splitTranscript_spec) simp
  then have A: "parts (splitTranscript ''a  b'' one_opening) Opening = Some ''a  b''"
    by (simp add: spec_splitTranscript_def segments_def bucket_def one_opening_def
        spec_take_def fl_0 fl_1 fl_numeral Let_def)
  have B: "parts (spec_splitTranscript ws_words ''a  b'' one_opening) Opening = Some ''a b''"
    by (simp add: spec_splitTranscript_def segments_def bucket_def one_opening_def
        spec_take_def fl_0 fl_1 fl_numeral Let_def is_space_def)
  show ?thesis using A B by auto
qed

text \<open>
  C3, amended. With the transcript tokenized by splitting at every single space, and for a
  transcript of fewer than \<open>2 ^ 32\<close> such words (the bound of a JavaScript array),
  \<open>splitTranscript\<close> is the specification's algorithm: all segments empty when the
  buckets hold no frame, and otherwise for each bucket in the fixed order the slice of
  \<open>floor((count / total) * wordCount)\<close> words (in double arithmetic) at the running
  cursor, joined by single spaces; \<open>general\<close> is the transcript.
\<close>

theorem splitTranscript_refines_spec:
  "length (split_space transcript) < 2 ^ 32 \<Longrightarrow>
   splitTranscript transcript categories
     = spec_splitTranscript split_space transcript categories"
  by (rule splitTranscript_spec)

theorem splitTranscript_refines_spec_witness:
  "length (split_space ''a b c d e f g h i j'') < 2 ^ 32 \<and>
   splitTranscript ''a b c d e f g h i j'' counts_1120
     = spec_splitTranscript split_space ''a b c d e f g h i j'' counts_1120"
  using splitTranscript_refines_spec[of "''a b c d e f g h i j''" counts_1120] by simp

lemma part_text_spec:
  "tot \<noteq> 0 \<Longrightarrow>
   map (part_text \<lparr>parts = map_of (zip segments (spec_segments tot words 0 [a, b, c, d, e])),
                     general = g\<rparr>) segments
     = spec_segments tot words 0 [a, b, c, d, e]"
  by (simp add: part_text_def segments_def)

lemma splitTranscript_word_counts:
  assumes "length (split_space transcript) < 2 ^ 32"
  shows "sum_list (map (\<lambda>s. word_count (part_text (splitTranscript transcript categories) s))
                     segments) \<le> word_count transcript"
proof -
  define tot where "tot = sum_list (map (\<lambda>s. length (bucket categories s)) segments)"
  define words where "words = split_space transcript"
  have wc: "word_count transcript = sum_list (map word_count words)"
    using word_count_join_space[of words] by (simp add: words_def join_split_space)
  have eq: "splitTranscript transcript categories
              = spec_splitTranscript split_space transcript categories"
    using assms by (rule splitTranscript_spec)
  show ?thesis
  proof (cases "tot = 0")
    case True
    then have "part_text (splitTranscript transcript categories) s = []" for s
      by (simp add: eq spec_splitTranscript_def Let_def tot_def part_text_def)
    then show ?thesis by (simp add: word_count_def)
  next
    case False
    let ?segs = "spec_segments tot words 0 (map (\<lambda>s. length (bucket categories s)) segments)"
    have r: "spec_splitTranscript split_space transcript categories
             = \<lparr>parts = map_of (zip segments ?segs), general = transcript\<rparr>"
      unfolding spec_splitTranscript_def Let_def tot_def[symmetric] words_def[symmetric]
      using False by simp
    have "map (part_text (splitTranscript transcript categories)) segments = ?segs"
      unfolding eq r using part_text_spec[OF False] by (simp add: segments_def)
    then have "map (\<lambda>s. word_count (part_text (splitTranscript transcript categories) s)) segments
               = map word_count ?segs"
      by (metis (no_types, lifting) map_map comp_def map_eq_conv)
    then show ?thesis
      using spec_segments_word_count[of tot words 0] wc by simp
  qed
qed

text \<open>
  C4. For a transcript of fewer than \<open>2 ^ 32\<close> space-separated pieces, the words
  (maximal runs of characters other than whitespace) of the five segment strings are
  together at most as many as the words of the transcript, every segment has a text, and
  \<open>general\<close> is the transcript itself, whether or not the buckets hold any frame.
\<close>

theorem splitTranscript_counts_and_general:
  "length (split_space transcript) < 2 ^ 32 \<Longrightarrow>
   word_count (part_text (splitTranscript transcript categories) Opening) +
   word_count (part_text (splitTranscript transcript categories) Setup) +
   word_count (part_text (splitTranscript transcript categories) Main) +
   word_count (part_text (splitTranscript transcript categories) Climax) +
   word_count (part_text (splitTranscript transcript categories) Closing)
     \<le> word_count transcript \<and>
   general (splitTranscript transcript categories) = transcript"
proof -
  assume a: "length (split_space transcript) < 2 ^ 32"
  have "general (splitTranscript transcript categories) = transcript"
    by (simp add: splitTranscript_def Let_def)
  then show ?thesis
    using splitTranscript_word_counts[OF a, of categories] by (simp add: segments_def)
qed

theorem splitTranscript_counts_and_general_witness:
  "length (split_space ''a b  c'') < 2 ^ 32 \<and>
   word_count (part_text (splitTranscript ''a b  c'' one_opening) Opening) +
   word_count (part_text (splitTranscript ''a b  c'' one_opening) Setup) +
   word_count (part_text (splitTranscript ''a b  c'' one_opening) Main) +
   word_count (part_text (splitTranscript ''a b  c'' one_opening) Climax) +
   word_count (part_text (splitTranscript ''a b  c'' one_opening) Closing)
     \<le> word_count ''a b  c'' \<and>
   general (splitTranscript ''a b  c'' one_opening) = ''a b  c''"
  using splitTranscript_counts_and_general[of "''a b  c''" one_opening] by simp

lemma db_unlink_if_exists: "db (unlink_if_exists p w) = db w"
  by (simp add: unlink_if_exists_def)

lemma calls_unlink_if_exists: "calls (unlink_if_exists p w) = calls w"
  by (simp add: unlink_if_exists_def)

lemma success_is_persisted:
  assumes "post_api_main digest e \<lparr>file_req = Some f, body_req = b\<rparr> w
             = (Response 200 (Data p), w1)"
    and "map_of (files w) (path f) = Some content"
  shows "db w1 (digest content) = Some p \<and> read_fails e = None"
  using assms
  by (auto simp add: post_api_main_def try_block_def seq_def getFileHash_def findUnique_def
      create_def ret_def effect_def db_unlink_if_exists
      split: option.splits prod.splits sum.splits)

lemma cache_hit:
  assumes "db w identifier = Some p" "map_of (files w) (path f) = Some content"
    "digest content = identifier" "read_fails e = None" "find_fails e = None"
  shows "post_api_main digest e \<lparr>file_req = Some f, body_req = b\<rparr> w
           = (Response 200 (Data p), unlink_if_exists (path f) w)"
  using assms
  by (simp add: post_api_main_def try_block_def seq_def getFileHash_def findUnique_def
      ret_def effect_def)

lemma keeps_db_ret: "keeps_db (ret x)"
  by (simp add: keeps_db_def ret_def)

lemma keeps_db_throw: "keeps_db (throw err)"
  by (simp add: keeps_db_def throw_def)

lemma keeps_db_lift: "keeps_db (lift r)"
  by (simp add: keeps_db_def lift_def)

lemma keeps_db_fails: "keeps_db (fails r)"
  by (simp add: keeps_db_def fails_def split: option.splits)

lemma keeps_db_effect: "(\<And>w. db (f w) = db w) \<Longrightarrow> keeps_db (effect f)"
  by (simp add: keeps_db_def effect_def)

lemma keeps_db_seq: "keeps_db m \<Longrightarrow> (\<And>x. keeps_db (f x)) \<Longrightarrow> keeps_db (seq m f)"
  unfolding keeps_db_def seq_def
  by (auto split: prod.splits sum.splits) (metis snd_conv)+

lemma keeps_db_both: "keeps_db m \<Longrightarrow> keeps_db n \<Longrightarrow> keeps_db (both m n)"
  unfolding keeps_db_def both_def
  by (auto split: prod.splits sum.splits) (metis snd_conv)+

lemma db_simps:
  "db (mkdir_if_missing p w) = db w" "db (write_file p w) = db w" "db (log_call c w) = db w"
  by (simp_all add: mkdir_if_missing_def write_file_def log_call_def)

lemma db_foldl: "(\<And>w x. db (g w x) = db w) \<Longrightarrow> db (foldl g w xs) = db w"
  by (induction xs arbitrary: w) simp_all

lemma keeps_db_rmdir: "keeps_db (rmdir_if_exists dir)"
  by (simp add: keeps_db_def rmdir_if_exists_def)

lemma keeps_db_extractAndUploadAudio: "keeps_db (extractAndUploadAudio e p)"
  unfolding extractAndUploadAudio_def Let_def
  by (intro keeps_db_seq keeps_db_effect keeps_db_fails keeps_db_lift keeps_db_ret)
    (simp_all add: db_simps db_unlink_if_exists)

lemma keeps_db_extractAndUploadFrames: "keeps_db (extractAndUploadFrames e p f b)"
proof -
  have r: "keeps_db (\<lambda>w. ret (g w) w)" for g :: "world \<Rightarrow> string list"
    by (simp add: keeps_db_def ret_def)
  show ?thesis
    unfolding extractAndUploadFrames_def Let_def
    apply (intro keeps_db_seq keeps_db_effect keeps_db_lift)
     apply (simp add: db_simps)
    apply (simp add: keeps_db_throw)
    apply (intro impI keeps_db_seq keeps_db_effect keeps_db_lift keeps_db_ret keeps_db_rmdir r)
     apply (simp_all add: db_foldl db_simps db_unlink_if_exists)
    done
qed

lemma keeps_db_transcribe_step: "keeps_db (transcribe_step e)"
  unfolding transcribe_step_def Let_def
  by (intro keeps_db_seq keeps_db_effect keeps_db_fails keeps_db_lift keeps_db_ret)
    (simp_all add: db_simps db_unlink_if_exists)

lemma keeps_db_evaluate_segments: "keeps_db (evaluate_segments e a c)"
  by (simp add: keeps_db_def evaluate_segments_def Let_def)

lemma keeps_db_summarize: "keeps_db (summarize e rs a)"
  unfolding summarize_def Let_def
  by (intro keeps_db_seq keeps_db_effect keeps_db_lift) (simp_all add: db_simps)

lemma keeps_db_validate: "keeps_db (validate r)"
  unfolding validate_def
  by (intro keeps_db_seq keeps_db_lift) (simp add: keeps_db_throw keeps_db_ret)

lemma keeps_db_analyse: "keeps_db (analyse e f b)"
  unfolding analyse_def Let_def split_def
  by (intro keeps_db_seq keeps_db_both keeps_db_extractAndUploadAudio
      keeps_db_extractAndUploadFrames keeps_db_effect keeps_db_transcribe_step
      keeps_db_evaluate_segments keeps_db_summarize keeps_db_validate keeps_db_ret)
    (simp_all add: db_unlink_if_exists)

lemma analyse_validated:
  assumes "analyse e f b w = (Inr data, wa)"
  shows "\<exists>ok. isOpenAIResponseResult (p_result data) = Inr ok \<and> truthy ok"
  using assms
  unfolding analyse_def Let_def split_def seq_def validate_def lift_def throw_def ret_def
  by (auto split: prod.splits sum.splits if_splits)

lemma appends_none: "(\<And>w. calls (snd (m w)) = calls w) \<Longrightarrow> appends I m"
  by (simp add: appends_def)

lemma appends_one:
  "(\<And>w. calls (snd (m w)) = calls w @ [c]) \<Longrightarrow> stage c \<in> I \<Longrightarrow> appends I m"
  by (simp add: appends_def)

lemma appends_mono: "appends I m \<Longrightarrow> I \<subseteq> J \<Longrightarrow> appends J m"
  unfolding appends_def by (meson subset_trans)

lemma appends_seq:
  assumes "appends I m" "\<And>x. appends J (f x)" "I \<inter> J = {}"
  shows "appends (I \<union> J) (seq m f)"
  unfolding appends_def
proof
  fix w
  obtain r w1 where m: "m w = (r, w1)" by (cases "m w")
  obtain n1 where n1: "calls w1 = calls w @ n1" "distinct n1" "stage ` set n1 \<subseteq> I"
    using assms(1) m unfolding appends_def by (metis snd_conv)
  show "\<exists>new. calls (snd (seq m f w)) = calls w @ new \<and> distinct new
          \<and> stage ` set new \<subseteq> I \<union> J"
  proof (cases r)
    case (Inl err)
    then show ?thesis using m n1 by (auto simp add: seq_def)
  next
    case (Inr x)
    obtain n2 where n2: "calls (snd (f x w1)) = calls w1 @ n2" "distinct n2"
      "stage ` set n2 \<subseteq> J"
      using assms(2) unfolding appends_def by blast
    have "set n1 \<inter> set n2 = {}" using n1(3) n2(3) assms(3) by blast
    then have "distinct (n1 @ n2)" using n1(2) n2(2) by simp
    moreover have "calls (snd (seq m f w)) = calls w @ (n1 @ n2)"
      using m Inr n1(1) n2(1) by (simp add: seq_def)
    moreover have "stage ` set (n1 @ n2) \<subseteq> I \<union> J" using n1(3) n2(3) by auto
    ultimately show ?thesis by blast
  qed
qed

lemma appends_both:
  assumes "appends I m" "appends J n" "I \<inter> J = {}"
  shows "appends (I \<union> J) (both m n)"
  unfolding appends_def
proof
  fix w
  obtain r1 w1 where m: "m w = (r1, w1)" by (cases "m w")
  obtain r2 w2 where n: "n w1 = (r2, w2)" by (cases "n w1")
  obtain n1 where n1: "calls w1 = calls w @ n1" "distinct n1" "stage ` set n1 \<subseteq> I"
    using assms(1) m unfolding appends_def by (metis snd_conv)
  obtain n2 where n2: "calls w2 = calls w1 @ n2" "distinct n2" "stage ` set n2 \<subseteq> J"
    using assms(2) n unfolding appends_def by (metis snd_conv)
  have w2: "snd (both m n w) = w2"
    using m n by (simp add: both_def split: sum.splits)
  have "set n1 \<inter> set n2 = {}" using n1(3) n2(3) assms(3) by blast
  then have "distinct (n1 @ n2)" using n1(2) n2(2) by simp
  moreover have "calls (snd (both m n w)) = calls w @ (n1 @ n2)"
    using w2 n1(1) n2(1) by simp
  moreover have "stage ` set (n1 @ n2) \<subseteq> I \<union> J" using n1(3) n2(3) by auto
  ultimately show "\<exists>new. calls (snd (both m n w)) = calls w @ new \<and> distinct new
          \<and> stage ` set new \<subseteq> I \<union> J" by blast
qed

lemma appends_seq_quiet_left:
  "appends {} m \<Longrightarrow> (\<And>x. appends J (f x)) \<Longrightarrow> appends J (seq m f)"
  using appends_seq[of "{}" m J f] by simp

lemma appends_seq_quiet_right:
  "appends I m \<Longrightarrow> (\<And>x. appends {} (f x)) \<Longrightarrow> appends I (seq m f)"
  using appends_seq[of I m "{}" f] by simp

lemma calls_simps:
  "calls (mkdir_if_missing p w) = calls w" "calls (write_file p w) = calls w"
  "calls (log_call c w) = calls w @ [c]"
  by (simp_all add: mkdir_if_missing_def write_file_def log_call_def)

lemma calls_foldl: "(\<And>w x. calls (g w x) = calls w) \<Longrightarrow> calls (foldl g w xs) = calls w"
  by (induction xs arbitrary: w) simp_all

lemma quiet_ret: "appends {} (ret x)"
  by (simp add: appends_def ret_def)

lemma quiet_throw: "appends {} (throw err)"
  by (simp add: appends_def throw_def)

lemma quiet_lift: "appends {} (lift r)"
  by (simp add: appends_def lift_def)

lemma quiet_fails: "appends {} (fails r)"
  by (simp add: appends_def fails_def split: option.splits)

lemma quiet_effect: "(\<And>w. calls (f w) = calls w) \<Longrightarrow> appends {} (effect f)"
  by (simp add: appends_def effect_def)

lemma quiet_seq: "appends {} m \<Longrightarrow> (\<And>x. appends {} (f x)) \<Longrightarrow> appends {} (seq m f)"
  by (rule appends_seq_quiet_left)

lemma quiet_rmdir: "appends {} (rmdir_if_exists dir)"
  by (simp add: appends_def rmdir_if_exists_def)

lemma appends_extractAndUploadAudio: "appends {0} (extractAndUploadAudio e p)"
  unfolding extractAndUploadAudio_def Let_def
proof (rule appends_seq_quiet_right)
  show "appends {0} (effect (log_call ExtractAudio \<circ> mkdir_if_missing ''temp''))"
    by (rule appends_one[where c = ExtractAudio]) (simp_all add: effect_def calls_simps)
next
  fix x :: unit
  show "appends {}
          (seq (fails (ffmpeg_audio e)) (\<lambda>_.
           seq (effect (write_file (join_path ''temp'' (audio_stamp e @ ''-audio.wav'')))) (\<lambda>_.
           seq (lift (probe_audio e)) (\<lambda>metadata.
           seq (lift (upload_audio e)) (\<lambda>uploadAudioResult.
           seq (effect (unlink_if_exists (join_path ''temp'' (audio_stamp e @ ''-audio.wav'')))) (\<lambda>_.
           ret \<lparr>a_url = secure_url uploadAudioResult, a_name = public_id uploadAudioResult,
                a_format = up_format uploadAudioResult, a_size = bytes uploadAudioResult,
                a_meta = metadata\<rparr>))))))"
    by (intro quiet_seq quiet_fails quiet_effect quiet_lift quiet_ret)
      (simp_all add: calls_simps calls_unlink_if_exists)
qed

lemma appends_if: "appends I a \<Longrightarrow> appends I b \<Longrightarrow> appends I (if c then a else b)"
  by simp

lemma appends_extractAndUploadFrames: "appends {1} (extractAndUploadFrames e p f b)"
proof -
  have r: "appends {} (\<lambda>w. ret (g w) w)" for g :: "world \<Rightarrow> string list"
    by (simp add: appends_def ret_def)
  show ?thesis
    unfolding extractAndUploadFrames_def Let_def
    apply (rule appends_seq_quiet_right)
     apply (rule appends_one[where c = ExtractFrames])
      apply (simp add: effect_def calls_simps)
     apply simp
    apply (intro quiet_seq quiet_lift appends_if quiet_throw quiet_effect quiet_ret quiet_rmdir r)
     apply (simp_all add: calls_foldl calls_simps calls_unlink_if_exists)
    done
qed

lemma appends_transcribe_step: "appends {2} (transcribe_step e)"
  unfolding transcribe_step_def Let_def
  apply (rule appends_seq_quiet_left, rule quiet_effect, simp add: calls_simps)
  apply (rule appends_seq_quiet_left, rule quiet_fails)
  apply (rule appends_seq_quiet_left, rule quiet_effect, simp add: calls_simps)
  apply (rule appends_seq_quiet_left, rule quiet_fails)
  apply (rule appends_seq_quiet_right)
   apply (rule appends_one[where c = Transcribe])
    apply (simp add: effect_def calls_simps)
   apply simp
  apply (intro quiet_seq quiet_lift quiet_effect quiet_ret)
  apply (simp add: calls_unlink_if_exists)
  done

lemma appends_evaluate_segments: "appends {3} (evaluate_segments e a c)"
  by (simp add: appends_def evaluate_segments_def Let_def segments_def segment_name_def)

lemma appends_summarize: "appends {4} (summarize e rs a)"
  unfolding summarize_def Let_def
  apply (rule appends_seq_quiet_right)
   apply (rule appends_one[where c = "Complete (SummaryPrompt (rs ! 0) (rs ! 1) (rs ! 2) (rs ! 3)
                                          (rs ! 4) (general a))"])
    apply (simp add: effect_def calls_simps)
   apply simp
  apply (rule quiet_lift)
  done

lemma quiet_validate: "appends {} (validate r)"
  unfolding validate_def
  by (intro quiet_seq quiet_lift appends_if quiet_throw quiet_ret)

lemma appends_analyse: "appends {0, 1, 2, 3, 4} (analyse e f b)"
proof -
  have ex: "appends ({0} \<union> {1})
              (both (extractAndUploadAudio e (path f)) (extractAndUploadFrames e (path f) f b))"
    by (rule appends_both[OF appends_extractAndUploadAudio appends_extractAndUploadFrames]) simp
  have rest3: "appends ({3} \<union> {4})
      (seq (evaluate_segments e a c) (\<lambda>rs.
         seq (summarize e rs a) (\<lambda>general_result. seq (validate (r rs general_result))
            (\<lambda>_. ret (d rs general_result)))))" for a c r d
    apply (rule appends_seq[OF appends_evaluate_segments])
     apply (rule appends_seq_quiet_right[OF appends_summarize])
     apply (intro quiet_seq quiet_validate quiet_ret)
    apply simp
    done
  have rest2: "appends ({2} \<union> ({3} \<union> {4}))
      (seq (transcribe_step e) (\<lambda>transcript.
         seq (evaluate_segments e (a transcript) (c transcript)) (\<lambda>rs.
         seq (summarize e rs (a transcript)) (\<lambda>general_result.
         seq (validate (r transcript rs general_result))
            (\<lambda>_. ret (d transcript rs general_result))))))" for a c r d
    apply (rule appends_seq[OF appends_transcribe_step])
     apply (rule rest3)
    apply simp
    done
  have "appends (({0} \<union> {1}) \<union> ({2} \<union> ({3} \<union> {4}))) (analyse e f b)"
    unfolding analyse_def Let_def split_def
    apply (rule appends_seq[OF ex])
     apply (rule appends_seq_quiet_left)
      apply (rule quiet_effect)
      apply (simp add: calls_unlink_if_exists)
     apply (rule rest2)
    apply simp
    done
  then show ?thesis by (rule appends_mono) auto
qed

lemma quiet_getFileHash: "appends {} (getFileHash digest e p)"
  by (simp add: appends_def getFileHash_def split: option.splits)

lemma quiet_findUnique: "appends {} (findUnique e i)"
  by (simp add: appends_def findUnique_def split: option.splits)

lemma quiet_create: "appends {} (create e i d)"
  by (simp add: appends_def create_def split: option.splits)

lemma appends_try_block: "appends {0, 1, 2, 3, 4} (try_block digest e f b)"
proof -
  have hit: "appends {0, 1, 2, 3, 4}
      (seq (effect (unlink_if_exists (path f))) (\<lambda>_. ret (Response 200 (Data stored))))"
    for stored
    by (rule appends_mono[where I = "{}"])
      (intro quiet_seq quiet_effect quiet_ret, simp_all add: calls_unlink_if_exists)
  have miss: "appends {0, 1, 2, 3, 4}
      (seq (analyse e f b) (\<lambda>data.
         seq (create e i data) (\<lambda>created. ret (Response 200 (Data created)))))" for i
    by (rule appends_seq_quiet_right[OF appends_analyse]) (intro quiet_seq quiet_create quiet_ret)
  have branch: "appends {0, 1, 2, 3, 4}
      (case existing of
         Some stored \<Rightarrow>
           seq (effect (unlink_if_exists (path f))) (\<lambda>_. ret (Response 200 (Data stored)))
       | None \<Rightarrow>
           seq (analyse e f b) (\<lambda>data.
           seq (create e i data) (\<lambda>created. ret (Response 200 (Data created)))))"
    for i existing
    by (cases existing) (simp_all only: option.case hit miss)
  show ?thesis
    unfolding try_block_def
    by (intro appends_seq_quiet_left quiet_getFileHash quiet_findUnique branch)
qed

lemma calls_post_api_main:
  "\<exists>new. calls (snd (post_api_main digest e req w)) = calls w @ new \<and> distinct new"
proof (cases "file_req req")
  case None
  then show ?thesis by (simp add: post_api_main_def)
next
  case (Some f)
  obtain new where n: "calls (snd (try_block digest e f (body_req req) w)) = calls w @ new"
    "distinct new"
    using appends_try_block[of digest e f "body_req req"] unfolding appends_def by blast
  show ?thesis using Some n
    by (auto simp add: post_api_main_def calls_unlink_if_exists split: prod.splits sum.splits)
qed

lemma env1_sel:
  "read_fails env1 = None" "find_fails env1 = None" "audio_stamp env1 = ''1''"
  "frames_stamp env1 = ''2''" "ffmpeg_audio env1 = None"
  "probe_audio env1 = Inr \<lparr>duration = JNum (Fin 1), sampleRate = JNull, channels = JNull,
                          channelLayout = JUndefined\<rparr>"
  "upload_audio env1 = Inr upload0"
  "probe_video env1 = Inr \<lparr>has_video_stream = True, v_duration = JNum (Fin 1),
                                       v_width = JUndefined, v_height = JUndefined\<rparr>"
  "ffmpeg_frames env1 = Inr []" "fetch_audio env1 = None" "pipe_audio env1 = None"
  "transcribeAudio env1 = Inr ''hello''" "create_fails env1 = None"
  "gptJson env1 (SegmentPrompt n t fs) = Inr item_ok"
  "gptJson env1 (SummaryPrompt a b c d e' t') = Inr general_ok"
  "parse_number env1 = parse_nan"
  by (simp_all add: env1_def env0_def)

lemma run1_audio:
  "extractAndUploadAudio env1 ''uploads/v'' world0 =
     (Inr audio1,
      \<lparr>files = [(''uploads/v'', ''bytes''), (''temp'', [])], db = Map.empty,
        calls = [ExtractAudio]\<rparr>)"
  by (simp add: extractAndUploadAudio_def env1_sel seq_def ret_def lift_def fails_def effect_def
      world0_def upload0_def mkdir_if_missing_def write_file_def unlink_if_exists_def
      existsSync_def remove_path_def join_path_def log_call_def audio1_def Let_def)

lemma used1:
  "format (usedSettings parse_nan \<lparr>interval = JUndefined, format = JUndefined,
                                     quality = JUndefined\<rparr>) = JStr ''jpeg''"
  by (simp add: usedSettings_def js_or_def)

lemma run1_frames:
  "extractAndUploadFrames env1 ''uploads/v'' file0
       \<lparr>interval = JUndefined, format = JUndefined, quality = JUndefined\<rparr>
       \<lparr>files = [(''uploads/v'', ''bytes''), (''temp'', [])], db = Map.empty,
        calls = [ExtractAudio]\<rparr> =
     (Inr \<lparr>frames_of = [],
           videoFile = (\<lparr>has_video_stream = True, v_duration = JNum (Fin 1),
                          v_width = JUndefined, v_height = JUndefined\<rparr>, file0),
           settings_used = usedSettings parse_nan
              \<lparr>interval = JUndefined, format = JUndefined, quality = JUndefined\<rparr>\<rparr>,
      \<lparr>files = [(''uploads/v'', ''bytes''), (''temp'', [])], db = Map.empty,
        calls = [ExtractAudio, ExtractFrames]\<rparr>)"
  by (simp add: extractAndUploadFrames_def env1_sel used1 string_of_def seq_def ret_def lift_def
      effect_def mkdir_if_missing_def write_file_def unlink_if_exists_def existsSync_def
      remove_path_def join_path_def log_call_def readdirSync_def rmdir_if_exists_def Let_def)

lemma run1_transcribe:
  "transcribe_step env1 \<lparr>files = [(''temp'', [])], db = Map.empty,
        calls = [ExtractAudio, ExtractFrames]\<rparr> =
     (Inr ''hello'', \<lparr>files = [(''temp'', [])], db = Map.empty,
        calls = [ExtractAudio, ExtractFrames, Transcribe]\<rparr>)"
  by (simp add: transcribe_step_def env1_sel seq_def ret_def lift_def fails_def effect_def
      mkdir_if_missing_def write_file_def unlink_if_exists_def existsSync_def
      remove_path_def join_path_def log_call_def Let_def)

lemma run1_split:
  "splitTranscript ''hello'' (empty_categories (Fin 0)) =
     \<lparr>parts = [Opening \<mapsto> [], Setup \<mapsto> [], Main \<mapsto> [], Climax \<mapsto> [], Closing \<mapsto> []],
      general = ''hello''\<rparr>"
  "categorizeFrames [] = empty_categories (Fin 0)"
  by (simp_all add: splitTranscript_def categorizeFrames_def empty_categories_def)

lemma run1_segments:
  "evaluate_segments env1
     \<lparr>parts = [Opening \<mapsto> [], Setup \<mapsto> [], Main \<mapsto> [], Climax \<mapsto> [], Closing \<mapsto> []],
      general = ''hello''\<rparr> (empty_categories (Fin 0)) w =
   (Inr [item_ok, item_ok, item_ok, item_ok, item_ok], w\<lparr>calls := calls w @ segment_calls\<rparr>)"
  by (simp add: evaluate_segments_def env1_sel segments_def bucket_def empty_categories_def
      segment_calls_def Let_def)

lemma run1_summary:
  "summarize env1 [item_ok, item_ok, item_ok, item_ok, item_ok]
     \<lparr>parts = ps, general = ''hello''\<rparr> w =
   (Inr general_ok,
    w\<lparr>calls := calls w @ [Complete (SummaryPrompt item_ok item_ok item_ok item_ok item_ok
                                      ''hello'')]\<rparr>)"
  by (simp add: summarize_def env1_sel seq_def effect_def lift_def log_call_def Let_def)

lemma run1_validate:
  "validate (JObj [(''general'', general_ok), (''opening'', item_ok), (''setup'', item_ok),
                   (''main'', item_ok), (''climax'', item_ok), (''closing'', item_ok)]) w
     = (Inr (), w)"
proof -
  have "spec_isAssessmentDocument
          (JObj [(''general'', general_ok), (''opening'', item_ok), (''setup'', item_ok),
                   (''main'', item_ok), (''climax'', item_ok), (''closing'', item_ok)])"
    by (simp add: spec_isAssessmentDocument_def spec_isResultItem_def
        spec_isAssessmentIndicator_def field_def general_ok_def item_ok_def
        is_boolean_def is_string_def)
  then have "isOpenAIResponseResult
          (JObj [(''general'', general_ok), (''opening'', item_ok), (''setup'', item_ok),
                   (''main'', item_ok), (''climax'', item_ok), (''closing'', item_ok)])
        = Inr (JBool True)"
    using isOpenAIResponseResult_spec by metis
  then show ?thesis by (simp add: validate_def seq_def lift_def ret_def)
qed

lemma run1_analyse:
  "analyse env1 file0 \<lparr>interval = JUndefined, format = JUndefined, quality = JUndefined\<rparr> world0
     = (Inr payload1,
        \<lparr>files = [(''temp'', [])], db = Map.empty,
          calls = [ExtractAudio, ExtractFrames, Transcribe] @ segment_calls @
                  [Complete (SummaryPrompt item_ok item_ok item_ok item_ok item_ok ''hello'')]\<rparr>)"
proof -
  have p: "path file0 = ''uploads/v''" by (simp add: file0_def)
  have u: "unlink_if_exists ''uploads/v''
             \<lparr>files = [(''uploads/v'', ''bytes''), (''temp'', [])], db = Map.empty,
               calls = [ExtractAudio, ExtractFrames]\<rparr>
           = \<lparr>files = [(''temp'', [])], db = Map.empty, calls = [ExtractAudio, ExtractFrames]\<rparr>"
    by (simp add: unlink_if_exists_def existsSync_def remove_path_def)
  show ?thesis
    unfolding analyse_def p
    by (simp add: both_def run1_audio run1_frames seq_def effect_def u run1_transcribe
        run1_split run1_segments run1_summary run1_validate ret_def payload1_def Let_def)
qed

lemma run1:
  "post_api_main digest0 env1 request0 world0 =
     (Response 200 (Data payload1),
      \<lparr>files = [(''temp'', [])], db = [''sha:bytes'' \<mapsto> payload1],
        calls = [ExtractAudio, ExtractFrames, Transcribe] @ segment_calls @
                [Complete (SummaryPrompt item_ok item_ok item_ok item_ok item_ok ''hello'')]\<rparr>)"
proof -
  have h: "getFileHash digest0 env1 ''uploads/v'' world0 = (Inr ''sha:bytes'', world0)"
    by (simp add: getFileHash_def env1_sel world0_def digest0_def)
  have f: "findUnique env1 ''sha:bytes'' world0 = (Inr None, world0)"
    by (simp add: findUnique_def env1_sel world0_def)
  have p: "path file0 = ''uploads/v''" by (simp add: file0_def)
  show ?thesis
    unfolding post_api_main_def try_block_def request0_def
    by (simp add: p h f seq_def run1_analyse create_def env1_sel ret_def)
qed

lemma run0:
  "post_api_main digest0 env0 request0 world0 =
     (Response 500 (Failure ''Sorry there's a problem'' (Error ''No video stream found'')),
      \<lparr>files = [(''temp'', []), (''temp/frames-2'', [])], db = Map.empty,
        calls = [ExtractAudio, ExtractFrames]\<rparr>)"
  by (simp add: post_api_main_def try_block_def analyse_def both_def extractAndUploadAudio_def
      extractAndUploadFrames_def seq_def ret_def throw_def lift_def fails_def effect_def
      getFileHash_def findUnique_def request0_def world0_def env0_def file0_def digest0_def
      upload0_def mkdir_if_missing_def write_file_def unlink_if_exists_def existsSync_def
      remove_path_def join_path_def log_call_def Let_def)

text \<open>
  C7. When an invocation answered 200 with a document for a video, a later invocation whose
  upload holds the same bytes computes the same identifier, and (the record of that
  identifier being still in the table, the upload readable and the lookup answering) it
  answers 200 with the same document, removes its upload and does nothing else: the log
  of collaborator calls and the table are as before.
\<close>

theorem second_invocation_served_from_cache:
  "post_api_main digest e1 \<lparr>file_req = Some f1, body_req = b1\<rparr> w
     = (Response 200 (Data p), w1) \<Longrightarrow>
   map_of (files w) (path f1) = Some content \<Longrightarrow>
   map_of (files w2) (path f2) = Some content \<Longrightarrow>
   db w2 (digest content) = db w1 (digest content) \<Longrightarrow>
   read_fails e2 = None \<Longrightarrow> find_fails e2 = None \<Longrightarrow>
   getFileHash digest e1 (path f1) w = (Inr (digest content), w) \<and>
   getFileHash digest e2 (path f2) w2 = (Inr (digest content), w2) \<and>
   post_api_main digest e2 \<lparr>file_req = Some f2, body_req = b2\<rparr> w2
     = (Response 200 (Data p), unlink_if_exists (path f2) w2) \<and>
   calls (unlink_if_exists (path f2) w2) = calls w2 \<and>
   db (unlink_if_exists (path f2) w2) = db w2"
proof -
  assume first: "post_api_main digest e1 \<lparr>file_req = Some f1, body_req = b1\<rparr> w
     = (Response 200 (Data p), w1)"
    and c1: "map_of (files w) (path f1) = Some content"
    and c2: "map_of (files w2) (path f2) = Some content"
    and d: "db w2 (digest content) = db w1 (digest content)"
    and ok: "read_fails e2 = None" "find_fails e2 = None"
  have s: "db w1 (digest content) = Some p" "read_fails e1 = None"
    using success_is_persisted[OF first c1] by simp_all
  have "db w2 (digest content) = Some p" using d s(1) by simp
  then have hit: "post_api_main digest e2 \<lparr>file_req = Some f2, body_req = b2\<rparr> w2
     = (Response 200 (Data p), unlink_if_exists (path f2) w2)"
    using c2 ok by (intro cache_hit) simp_all
  have h1: "getFileHash digest e1 (path f1) w = (Inr (digest content), w)"
    using c1 s(2) by (simp add: getFileHash_def)
  have h2: "getFileHash digest e2 (path f2) w2 = (Inr (digest content), w2)"
    using c2 ok(1) by (simp add: getFileHash_def)
  show ?thesis
    using hit h1 h2 by (simp add: calls_unlink_if_exists db_unlink_if_exists)
qed

theorem second_invocation_served_from_cache_witness:
  "post_api_main digest0 env1 \<lparr>file_req = Some file0, body_req = body_req request0\<rparr> world0
     = (Response 200 (Data payload1), world1) \<and>
   map_of (files world0) (path file0) = Some ''bytes'' \<and>
   map_of (files world2) (path file2) = Some ''bytes'' \<and>
   post_api_main digest0 env0 \<lparr>file_req = Some file2, body_req = body_req request0\<rparr> world2
     = (Response 200 (Data payload1), unlink_if_exists (path file2) world2) \<and>
   calls (unlink_if_exists (path file2) world2) = calls world2"
proof -
  have a: "post_api_main digest0 env1 \<lparr>file_req = Some file0, body_req = body_req request0\<rparr>
             world0 = (Response 200 (Data payload1), world1)"
    using run1 by (simp add: request0_def world1_def)
  have b: "map_of (files world0) (path file0) = Some ''bytes''"
    by (simp add: world0_def file0_def)
  have c: "map_of (files world2) (path file2) = Some ''bytes''"
    by (simp add: world2_def world1_def file2_def)
  have d: "db world2 (digest0 ''bytes'') = db world1 (digest0 ''bytes'')"
    by (simp add: world2_def)
  have e: "read_fails env0 = None" "find_fails env0 = None"
    by (simp_all add: env0_def)
  show ?thesis
    using second_invocation_served_from_cache[OF a b c d e] a b c by simp
qed

lemma try_block_db:
  assumes "try_block digest e f b w = (r, w1)"
  shows "(db w1 = db w \<or>
          (\<exists>i data ok. r = Inr (Response 200 (Data data)) \<and> db w1 = (db w)(i \<mapsto> data) \<and>
             isOpenAIResponseResult (p_result data) = Inr ok \<and> truthy ok)) \<and>
         ((\<exists>err. r = Inl err) \<longrightarrow> db w1 = db w)"
proof -
  have k: "db (snd (analyse e f b w)) = db w"
    using keeps_db_analyse[of e f b] by (simp add: keeps_db_def)
  show ?thesis
  proof (cases "analyse e f b w")
    case (Pair ra wa)
    then have dbwa: "db wa = db w" using k by simp
    show ?thesis
    proof (cases ra)
      case (Inl err)
      then show ?thesis using assms Pair dbwa
        by (auto simp add: try_block_def seq_def getFileHash_def findUnique_def ret_def
            effect_def db_unlink_if_exists split: option.splits)
    next
      case (Inr data)
      obtain ok where v: "isOpenAIResponseResult (p_result data) = Inr ok" "truthy ok"
        using analyse_validated Pair Inr by blast
      show ?thesis using assms Pair Inr dbwa v
        by (auto simp add: try_block_def seq_def getFileHash_def findUnique_def ret_def
            effect_def create_def db_unlink_if_exists split: option.splits)
    qed
  qed
qed

text \<open>
  C8. Whatever the collaborators answer, an invocation either leaves the table as it was or
  adds one record, and it adds one only when it answers 200 with that record's document and
  \<open>isOpenAIResponseResult\<close> has accepted the assembled result; an answer 500 leaves the
  table as it was. When a stage of the pipeline (extraction, transcription, completion,
  parsing of a completion, validation) fails after a cache miss, the answer is the one
  response 500 carrying that error. No collaborator call is made twice in an invocation.
\<close>

theorem failure_persists_nothing:
  "post_api_main digest e req w = (res, w') \<Longrightarrow>
   (db w' = db w \<or>
    (\<exists>i data ok. res = Response 200 (Data data) \<and> db w' = (db w)(i \<mapsto> data) \<and>
       isOpenAIResponseResult (p_result data) = Inr ok \<and> truthy ok)) \<and>
   ((\<exists>msg err. res = Response 500 (Failure msg err)) \<longrightarrow> db w' = db w) \<and>
   (\<forall>f content err wa.
      file_req req = Some f \<and> map_of (files w) (path f) = Some content \<and>
      read_fails e = None \<and> find_fails e = None \<and> db w (digest content) = None \<and>
      analyse e f (body_req req) w = (Inl err, wa) \<longrightarrow>
      res = Response 500 (Failure ''Sorry there's a problem'' err)) \<and>
   (\<exists>new. calls w' = calls w @ new \<and> distinct new)"
proof -
  assume run: "post_api_main digest e req w = (res, w')"
  have calls: "\<exists>new. calls w' = calls w @ new \<and> distinct new"
    using calls_post_api_main[of digest e req w] run by simp
  have stage_fails: "res = Response 500 (Failure ''Sorry there's a problem'' err)"
    if "file_req req = Some f" "map_of (files w) (path f) = Some content"
      "read_fails e = None" "find_fails e = None" "db w (digest content) = None"
      "analyse e f (body_req req) w = (Inl err, wa)" for f content err wa
    using run that
    by (auto simp add: post_api_main_def try_block_def seq_def getFileHash_def findUnique_def)
  have dbs: "(db w' = db w \<or>
    (\<exists>i data ok. res = Response 200 (Data data) \<and> db w' = (db w)(i \<mapsto> data) \<and>
       isOpenAIResponseResult (p_result data) = Inr ok \<and> truthy ok)) \<and>
   ((\<exists>msg err. res = Response 500 (Failure msg err)) \<longrightarrow> db w' = db w)"
  proof (cases "file_req req")
    case None
    then show ?thesis using run by (auto simp add: post_api_main_def)
  next
    case (Some f)
    obtain r w1 where t: "try_block digest e f (body_req req) w = (r, w1)"
      by (cases "try_block digest e f (body_req req) w")
    show ?thesis
    proof (cases r)
      case (Inl err)
      then show ?thesis using run Some t try_block_db[OF t]
        by (auto simp add: post_api_main_def db_unlink_if_exists)
    next
      case (Inr x)
      then show ?thesis using run Some t try_block_db[OF t]
        by (auto simp add: post_api_main_def)
    qed
  qed
  show ?thesis using calls stage_fails dbs by blast
qed

theorem failure_persists_nothing_witness:
  "post_api_main digest0 env0 request0 world0 =
     (Response 500 (Failure ''Sorry there's a problem'' (Error ''No video stream found'')),
      \<lparr>files = [(''temp'', []), (''temp/frames-2'', [])], db = Map.empty,
        calls = [ExtractAudio, ExtractFrames]\<rparr>) \<and>
   db \<lparr>files = [(''temp'', []), (''temp/frames-2'', [])], db = Map.empty,
        calls = [ExtractAudio, ExtractFrames]\<rparr> = db world0"
  using failure_persists_nothing[OF run0] run0 by blast

text \<open>
  C9. The claim has every staged intermediate removed on every exit path. A video without
  a video stream makes \<open>extractAndUploadFrames\<close> throw after it has created its frames
  directory; the handler answers 500 and removes the upload, and the directory
  \<open>temp/frames-2\<close> is still there.
\<close>

theorem frames_directory_left_behind:
  "fst (post_api_main digest0 env0 request0 world0)
     = Response 500 (Failure ''Sorry there's a problem'' (Error ''No video stream found'')) \<and>
   \<not> existsSync ''uploads/v'' (snd (post_api_main digest0 env0 request0 world0)) \<and>
   existsSync ''temp/frames-2'' (snd (post_api_main digest0 env0 request0 world0))"
  by (simp add: run0 existsSync_def)

end
